theory Spec2Isabelle
  imports Main "HOL-Library.Sublist" "HOL-Library.AList"
begin

section \<open>Python strings\<close>

text \<open>
  A Python \<open>str\<close> is a sequence of Unicode code points. A code point is a natural
  number here and a text is a list of them; \<open>pystr\<close> turns an ASCII literal into such a
  text and \<open>ord\<close> gives the code point of an ASCII character.
\<close>

type_synonym str = "nat list"

abbreviation (input) ord :: "char \<Rightarrow> nat" where
  "ord c \<equiv> of_char c"

definition pystr :: "string \<Rightarrow> str" where
  "pystr = map of_char"

text \<open>
  \<open>str.isspace\<close> on one code point, which is also what \<open>\s\<close> matches in a \<open>re\<close>
  pattern over \<open>str\<close>: U+0009..U+000D, U+001C..U+0020, U+0085, U+00A0, U+1680,
  U+2000..U+200A, U+2028, U+2029, U+202F, U+205F, U+3000.
\<close>

definition isspace :: "nat \<Rightarrow> bool" where
  "isspace c \<longleftrightarrow>
     (0x09 \<le> c \<and> c \<le> 0x0D) \<or> (0x1C \<le> c \<and> c \<le> 0x20) \<or> c = 0x85 \<or> c = 0xA0 \<or>
     c = 0x1680 \<or> (0x2000 \<le> c \<and> c \<le> 0x200A) \<or> c = 0x2028 \<or> c = 0x2029 \<or>
     c = 0x202F \<or> c = 0x205F \<or> c = 0x3000"

text \<open>\<open>s.strip()\<close>: leading and trailing whitespace removed.\<close>

definition strip :: "str \<Rightarrow> str" where
  "strip s = rev (dropWhile isspace (rev (dropWhile isspace s)))"

text \<open>
  \<open>s.replace(old, new)\<close>: every non-overlapping occurrence of \<open>old\<close>, found from left
  to right in one pass, becomes \<open>new\<close>. With an empty \<open>old\<close> Python puts \<open>new\<close> before
  every code point and at the end.
\<close>

fun replace :: "str \<Rightarrow> str \<Rightarrow> str \<Rightarrow> str" where
  "replace s [] new = new @ concat (map (\<lambda>c. c # new) s)"
| "replace [] (p # ps) new = []"
| "replace (c # cs) (p # ps) new =
     (if prefix (p # ps) (c # cs) then new @ replace (drop (length ps) cs) (p # ps) new
      else c # replace cs (p # ps) new)"

text \<open>\<open>sub in s\<close>: \<open>sub\<close> occurs in \<open>s\<close> as a contiguous run.\<close>

fun contains :: "str \<Rightarrow> str \<Rightarrow> bool" where
  "contains [] sub = (sub = [])"
| "contains (c # cs) sub = (prefix sub (c # cs) \<or> contains cs sub)"

section \<open>The output-contract markers and the payload pattern\<close>

definition END_OF_PLAN :: str where
  "END_OF_PLAN = pystr ''[END_OF_PLAN]''"

definition USER_DATA_JSON :: str where
  "USER_DATA_JSON = pystr ''[USER_DATA_JSON]''"

text \<open>
  The pattern of both extraction functions is
  \<^verbatim>\<open>\[USER_DATA_JSON\]\s*(\{.*?\})\<close> with \<open>re.DOTALL\<close>. Tried at the start of \<open>s\<close> it
  needs the marker, then takes all the whitespace that follows (giving some back never
  helps: the code point it would stop at is whitespace, not a brace), needs an opening
  brace, and then the lazy \<^verbatim>\<open>.*?\<close> stops at the first closing brace. The result is
  \<open>(group(0), group(1))\<close>.
\<close>

definition match_here :: "str \<Rightarrow> (str \<times> str) option" where
  "match_here s =
     (if prefix USER_DATA_JSON s then
        (let after = drop (length USER_DATA_JSON) s;
             ws = takeWhile isspace after
         in case dropWhile isspace after of
              [] \<Rightarrow> None
            | c # cs \<Rightarrow>
                if c = ord CHR ''{'' \<and> ord CHR ''}'' \<in> set cs then
                  (let g1 = c # takeWhile (\<lambda>x. x \<noteq> ord CHR ''}'') cs @ [ord CHR ''}'']
                   in Some (USER_DATA_JSON @ ws @ g1, g1))
                else None)
      else None)"

text \<open>\<open>re.search\<close>: the match at the leftmost position that has one.\<close>

fun re_search :: "str \<Rightarrow> (str \<times> str) option" where
  "re_search [] = match_here []"
| "re_search (c # cs) =
     (case match_here (c # cs) of Some m \<Rightarrow> Some m | None \<Rightarrow> re_search cs)"

section \<open>\<open>json.loads\<close>\<close>

text \<open>
  The decoder of the Python standard library, as \<open>json.loads\<close> runs it with its default
  arguments. A value is \<open>None\<close>, a \<open>bool\<close>, an \<open>int\<close>, a \<open>float\<close>, a \<open>str\<close>, a \<open>list\<close>
  or a \<open>dict\<close>. A \<open>float\<close> is kept as the text it was read from (its binary value is a
  function of that text and no property below looks into it). A \<open>dict\<close> keeps its keys in
  insertion order, so it is an association list with distinct keys, and \<open>d[k] = v\<close> is
  \<open>AList.update k v d\<close>: an existing key keeps its place, a new key goes to the end.
\<close>

datatype json =
    JNull
  | JBool bool
  | JInt int
  | JFloat str
  | JString str
  | JArray "json list"
  | JObject "(str \<times> json) list"

type_synonym dict = "(str \<times> json) list"

text \<open>\<open>dict(pairs)\<close>: a later pair with the same key overwrites the value of the earlier one.\<close>

definition dict_of_pairs :: "(str \<times> json) list \<Rightarrow> dict" where
  "dict_of_pairs pairs = foldl (\<lambda>d (k, v). AList.update k v d) [] pairs"

text \<open>The decoder's \<open>WHITESPACE\<close> is \<^verbatim>\<open>[ \t\n\r]*\<close>.\<close>

definition json_ws :: "nat \<Rightarrow> bool" where
  "json_ws c \<longleftrightarrow> c = 0x20 \<or> c = 0x09 \<or> c = 0x0A \<or> c = 0x0D"

definition skip_ws :: "str \<Rightarrow> str" where
  "skip_ws s = dropWhile json_ws s"

definition is_digit :: "nat \<Rightarrow> bool" where
  "is_digit c \<longleftrightarrow> ord CHR ''0'' \<le> c \<and> c \<le> ord CHR ''9''"

definition hexval :: "nat \<Rightarrow> nat option" where
  "hexval c =
     (if ord CHR ''0'' \<le> c \<and> c \<le> ord CHR ''9'' then Some (c - ord CHR ''0'')
      else if ord CHR ''a'' \<le> c \<and> c \<le> ord CHR ''f'' then Some (c - ord CHR ''a'' + 10)
      else if ord CHR ''A'' \<le> c \<and> c \<le> ord CHR ''F'' then Some (c - ord CHR ''A'' + 10)
      else None)"

text \<open>The four hexadecimal digits of a \<^verbatim>\<open>\uXXXX\<close> escape, \<open>s\<close> starting after the \<open>u\<close>.\<close>

definition decode_uXXXX :: "str \<Rightarrow> nat option" where
  "decode_uXXXX s =
     (case s of
        a # b # c # d # _ \<Rightarrow>
          (case (hexval a, hexval b, hexval c, hexval d) of
             (Some w, Some x, Some y, Some z) \<Rightarrow> Some (((w * 16 + x) * 16 + y) * 16 + z)
           | _ \<Rightarrow> None)
      | _ \<Rightarrow> None)"

text \<open>The decoder's \<open>BACKSLASH\<close> table of one-letter escapes.\<close>

definition BACKSLASH :: "nat \<Rightarrow> nat option" where
  "BACKSLASH e =
     (if e = 0x22 then Some 0x22
      else if e = 0x5C then Some 0x5C
      else if e = ord CHR ''/'' then Some (ord CHR ''/'')
      else if e = ord CHR ''b'' then Some 0x08
      else if e = ord CHR ''f'' then Some 0x0C
      else if e = ord CHR ''n'' then Some 0x0A
      else if e = ord CHR ''r'' then Some 0x0D
      else if e = ord CHR ''t'' then Some 0x09
      else None)"

definition emit :: "nat \<Rightarrow> (str \<times> str) option \<Rightarrow> (str \<times> str) option" where
  "emit c r = map_option (\<lambda>(t, rest). (c # t, rest)) r"

text \<open>
  \<open>scanstring\<close> (strict), \<open>s\<close> starting after the opening quote: the decoded text and what
  follows the closing quote. \<open>None\<close> is the \<open>JSONDecodeError\<close> of an unterminated string, a
  control character, or a bad escape. A high surrogate escape directly followed by a low
  surrogate escape is one code point.
\<close>

fun scanstring :: "str \<Rightarrow> (str \<times> str) option" where
  "scanstring [] = None"
| "scanstring (c # cs) =
     (if c = 0x22 then Some ([], cs)
      else if c = 0x5C then
        (case cs of
           [] \<Rightarrow> None
         | e # es \<Rightarrow>
             if e = ord CHR ''u'' then
               (case decode_uXXXX es of
                  None \<Rightarrow> None
                | Some uni \<Rightarrow>
                    if 0xD800 \<le> uni \<and> uni \<le> 0xDBFF \<and> take 2 (drop 4 es) = [0x5C, ord CHR ''u''] then
                      (case decode_uXXXX (drop 6 es) of
                         None \<Rightarrow> None
                       | Some uni2 \<Rightarrow>
                           if 0xDC00 \<le> uni2 \<and> uni2 \<le> 0xDFFF then
                             emit (0x10000 + (uni - 0xD800) * 0x400 + (uni2 - 0xDC00))
                               (scanstring (drop 10 es))
                           else emit uni (scanstring (drop 4 es)))
                    else emit uni (scanstring (drop 4 es)))
             else
               (case BACKSLASH e of
                  None \<Rightarrow> None
                | Some ch \<Rightarrow> emit ch (scanstring es)))
      else if c \<le> 0x1F then None
      else emit c (scanstring cs))"

text \<open>
  \<open>NUMBER_RE\<close>, \<^verbatim>\<open>(-?(?:0|[1-9][0-9]*))(\.[0-9]+)?([eE][-+]?[0-9]+)?\<close>, matched at the
  start of a text, part by part: what a part matched and the rest. The sign, the
  fraction and the exponent are optional and match the empty text when they are not there.
\<close>

definition match_sign :: "str \<Rightarrow> str \<times> str" where
  "match_sign s =
     (case s of
        c # cs \<Rightarrow> if c = ord CHR ''-'' then ([c], cs) else ([], s)
      | [] \<Rightarrow> ([], s))"

definition match_int :: "str \<Rightarrow> (str \<times> str) option" where
  "match_int s =
     (case s of
        [] \<Rightarrow> None
      | d # ds \<Rightarrow>
          if \<not> is_digit d then None
          else if d = ord CHR ''0'' then Some ([d], ds)
          else Some (d # takeWhile is_digit ds, dropWhile is_digit ds))"

definition match_frac :: "str \<Rightarrow> str \<times> str" where
  "match_frac s =
     (case s of
        p # q # qs \<Rightarrow>
          if p = ord CHR ''.'' \<and> is_digit q
          then (p # q # takeWhile is_digit qs, dropWhile is_digit qs)
          else ([], s)
      | _ \<Rightarrow> ([], s))"

definition match_exp :: "str \<Rightarrow> str \<times> str" where
  "match_exp s =
     (case s of
        e # es \<Rightarrow>
          if e = ord CHR ''e'' \<or> e = ord CHR ''E'' then
            (let (sg, ds) = (case es of
                               x # xs \<Rightarrow>
                                 if x = ord CHR ''+'' \<or> x = ord CHR ''-'' then ([x], xs) else ([], es)
                             | [] \<Rightarrow> ([], es))
             in case ds of
                  y # ys \<Rightarrow>
                    if is_digit y
                    then (e # sg @ y # takeWhile is_digit ys, dropWhile is_digit ys)
                    else ([], s)
                | [] \<Rightarrow> ([], s))
          else ([], s)
      | [] \<Rightarrow> ([], s))"

text \<open>The three groups of \<open>NUMBER_RE\<close> (an absent group is empty) and the rest.\<close>

definition match_number :: "str \<Rightarrow> ((str \<times> str \<times> str) \<times> str) option" where
  "match_number s =
     (let (sign, s1) = match_sign s
      in case match_int s1 of
           None \<Rightarrow> None
         | Some (ipart, s2) \<Rightarrow>
             (let (frac, s3) = match_frac s2;
                  (ex, s4) = match_exp s3
              in Some ((sign @ ipart, frac, ex), s4)))"

text \<open>\<open>int(text)\<close> for an optional minus sign and decimal digits.\<close>

definition parse_int :: "str \<Rightarrow> int" where
  "parse_int t =
     (case t of
        c # cs \<Rightarrow>
          if c = ord CHR ''-''
          then - int (foldl (\<lambda>n d. 10 * n + (d - ord CHR ''0'')) 0 cs)
          else int (foldl (\<lambda>n d. 10 * n + (d - ord CHR ''0'')) 0 t)
      | [] \<Rightarrow> 0)"

text \<open>
  What \<open>json.loads\<close> raises. \<open>JSONDecodeError\<close> is its answer to a text that is not
  JSON. The other two come from the interpreter: \<open>RecursionError\<close> when containers are
  nested deeper than the recursion limit leaves room for, and \<open>ValueError\<close> when an
  integer has more digits than \<open>sys.get_int_max_str_digits()\<close> allows.
\<close>

datatype exn = JSONDecodeError | RecursionError | ValueError

text \<open>
  The interpreter the bot runs in, as far as the decoder depends on it. The decoder enters
  the recursion check once for every container it opens. The program sets no recursion
  limit of its own and the handler runs a few dozen frames deep, so the outermost
  container always has room; \<open>recursion_room\<close> is the number of containers that can be
  open inside it. \<open>int_max_str_digits\<close> is the limit on the digits of an integer (4300
  by default), \<open>0\<close> for no limit.
\<close>

record interpreter =
  recursion_room :: nat
  int_max_str_digits :: nat

text \<open>\<open>int(text)\<close> as the decoder calls it on the integer group of a number.\<close>

definition int_of_text :: "nat \<Rightarrow> str \<Rightarrow> exn + json" where
  "int_of_text max_digits t =
     (if max_digits \<noteq> 0 \<and> max_digits < length (filter is_digit t) then Inl ValueError
      else Inr (JInt (parse_int t)))"

text \<open>
  \<open>scan_once\<close> with the bodies of \<open>JSONObject\<close> and \<open>JSONArray\<close>: the value at the start
  of \<open>s\<close> and the rest. \<open>StopIteration\<close> is \<open>JSONDecodeError\<close> here, which is what
  \<open>decode\<close> turns it into. \<open>room\<close> is the number of containers that may still be
  opened; the check comes before anything inside the container is read. \<open>JSONObject\<close>
  starts after the quote that opens a key and \<open>JSONArray\<close> at an element, with the pairs
  and values read so far. The comparisons of lengths say that a value takes at least one
  code point; \<open>scan_once_shorter\<close> proves that they never fail.
\<close>

function scan_once :: "nat \<Rightarrow> nat \<Rightarrow> str \<Rightarrow> exn + (json \<times> str)"
  and JSONObject :: "nat \<Rightarrow> nat \<Rightarrow> (str \<times> json) list \<Rightarrow> str \<Rightarrow> exn + (json \<times> str)"
  and JSONArray :: "nat \<Rightarrow> nat \<Rightarrow> json list \<Rightarrow> str \<Rightarrow> exn + (json \<times> str)"
where
  "scan_once max_digits room s =
     (case s of
        [] \<Rightarrow> Inl JSONDecodeError
      | c # cs \<Rightarrow>
          if c = 0x22 then
            (case scanstring cs of
               None \<Rightarrow> Inl JSONDecodeError
             | Some (t, r) \<Rightarrow> Inr (JString t, r))
          else if c = ord CHR ''{'' then
            (case room of
               0 \<Rightarrow> Inl RecursionError
             | Suc inner \<Rightarrow>
                 (case skip_ws cs of
                    [] \<Rightarrow> Inl JSONDecodeError
                  | n # r \<Rightarrow>
                      if n = ord CHR ''}'' then Inr (JObject [], r)
                      else if n = 0x22 then JSONObject max_digits inner [] r
                      else Inl JSONDecodeError))
          else if c = ord CHR ''['' then
            (case room of
               0 \<Rightarrow> Inl RecursionError
             | Suc inner \<Rightarrow>
                 (case skip_ws cs of
                    [] \<Rightarrow> Inl JSONDecodeError
                  | n # r \<Rightarrow>
                      if n = ord CHR '']'' then Inr (JArray [], r)
                      else JSONArray max_digits inner [] (n # r)))
          else if c = ord CHR ''n'' \<and> take 4 s = pystr ''null'' then Inr (JNull, drop 4 s)
          else if c = ord CHR ''t'' \<and> take 4 s = pystr ''true'' then Inr (JBool True, drop 4 s)
          else if c = ord CHR ''f'' \<and> take 5 s = pystr ''false'' then Inr (JBool False, drop 5 s)
          else
            (case match_number s of
               Some ((integer, frac, ex), r) \<Rightarrow>
                 if frac \<noteq> [] \<or> ex \<noteq> [] then Inr (JFloat (integer @ frac @ ex), r)
                 else
                   (case int_of_text max_digits integer of
                      Inl e \<Rightarrow> Inl e
                    | Inr v \<Rightarrow> Inr (v, r))
             | None \<Rightarrow>
                 if c = ord CHR ''N'' \<and> take 3 s = pystr ''NaN''
                 then Inr (JFloat (pystr ''NaN''), drop 3 s)
                 else if c = ord CHR ''I'' \<and> take 8 s = pystr ''Infinity''
                 then Inr (JFloat (pystr ''Infinity''), drop 8 s)
                 else if c = ord CHR ''-'' \<and> take 9 s = pystr ''-Infinity''
                 then Inr (JFloat (pystr ''-Infinity''), drop 9 s)
                 else Inl JSONDecodeError))"
| "JSONObject max_digits room pairs s =
     (case scanstring s of
        None \<Rightarrow> Inl JSONDecodeError
      | Some (key, s1) \<Rightarrow>
          (case skip_ws s1 of
             [] \<Rightarrow> Inl JSONDecodeError
           | colon # s2 \<Rightarrow>
               if colon \<noteq> ord CHR '':'' then Inl JSONDecodeError
               else
                 (case scan_once max_digits room (skip_ws s2) of
                    Inl e \<Rightarrow> Inl e
                  | Inr (v, s3) \<Rightarrow>
                      if \<not> length s3 < length (skip_ws s2) then Inl JSONDecodeError
                      else
                        (case skip_ws s3 of
                           [] \<Rightarrow> Inl JSONDecodeError
                         | n # s4 \<Rightarrow>
                             if n = ord CHR ''}''
                             then Inr (JObject (dict_of_pairs (pairs @ [(key, v)])), s4)
                             else if n \<noteq> ord CHR '','' then Inl JSONDecodeError
                             else
                               (case skip_ws s4 of
                                  [] \<Rightarrow> Inl JSONDecodeError
                                | q # s5 \<Rightarrow>
                                    if q \<noteq> 0x22 then Inl JSONDecodeError
                                    else JSONObject max_digits room (pairs @ [(key, v)]) s5)))))"
| "JSONArray max_digits room vals s =
     (case scan_once max_digits room s of
        Inl e \<Rightarrow> Inl e
      | Inr (v, s1) \<Rightarrow>
          if \<not> length s1 < length s then Inl JSONDecodeError
          else
            (case skip_ws s1 of
               [] \<Rightarrow> Inl JSONDecodeError
             | n # s2 \<Rightarrow>
                 if n = ord CHR '']'' then Inr (JArray (vals @ [v]), s2)
                 else if n \<noteq> ord CHR '','' then Inl JSONDecodeError
                 else JSONArray max_digits room (vals @ [v]) (skip_ws s2)))"
  by pat_completeness auto

lemma skip_ws_length: "length (skip_ws s) \<le> length s"
  by (simp add: skip_ws_def length_dropWhile_le)

lemma skip_ws_Cons_length: "skip_ws s = c # r \<Longrightarrow> length r < length s"
  using skip_ws_length [of s] by simp

lemma scanstring_shorter: "scanstring s = Some (t, r) \<Longrightarrow> length r < length s"
proof (induction s arbitrary: t r rule: scanstring.induct)
  case 1
  then show ?case by simp
next
  case (2 c cs)
  show ?case using "2.prems" "2.IH"
    by (fastforce simp: emit_def split: if_splits list.splits option.splits)
qed

termination scan_once
  apply (relation "measure (\<lambda>x. case x of Inl (m, d, s) \<Rightarrow> 3 * length s
                                  | Inr (Inl (m, d, p, s)) \<Rightarrow> 3 * length s + 1
                                  | Inr (Inr (m, d, v, s)) \<Rightarrow> 3 * length s + 1)")
        apply simp
       apply (auto dest!: skip_ws_Cons_length scanstring_shorter)
  using skip_ws_length order.strict_trans1 apply fastforce+
  done

declare scan_once.simps [simp del] JSONObject.simps [simp del] JSONArray.simps [simp del]

text \<open>
  \<open>json.loads(s)\<close> for a \<open>str\<close>: a leading U+FEFF is refused, then one value is decoded
  between optional whitespace and nothing may follow it.
\<close>

definition json_loads :: "interpreter \<Rightarrow> str \<Rightarrow> exn + json" where
  "json_loads i s =
     (if prefix [0xFEFF] s then Inl JSONDecodeError
      else
        (case scan_once (int_max_str_digits i) (Suc (recursion_room i)) (skip_ws s) of
           Inl e \<Rightarrow> Inl e
         | Inr (obj, r) \<Rightarrow> if skip_ws r = [] then Inr obj else Inl JSONDecodeError))"

section \<open>The bot\<close>

text \<open>
  \<open>self.model\<close> and \<open>self.supabase\<close> are a client or \<open>None\<close>; the bot runs in an
  interpreter.
\<close>

record bot =
  model :: bool
  supabase :: bool
  interpreter :: interpreter

section \<open>The response parser\<close>

text \<open>
  \<open>_extract_profile_json\<close>: the decoded \<open>group(1)\<close> of the first match; \<open>None\<close> when
  nothing matches or \<open>json.loads\<close> raises \<open>JSONDecodeError\<close>, which line 173 catches and
  logs. No other exception is caught there: it leaves the function. Logging changes no
  result and is left out throughout.
\<close>

definition extract_profile_json :: "bot \<Rightarrow> str \<Rightarrow> exn + json option" where
  "extract_profile_json b text =
     (case re_search text of
        None \<Rightarrow> Inr None
      | Some (g0, g1) \<Rightarrow>
          (case json_loads (interpreter b) g1 of
             Inr v \<Rightarrow> Inr (Some v)
           | Inl JSONDecodeError \<Rightarrow> Inr None
           | Inl e \<Rightarrow> Inl e))"

text \<open>
  \<open>_extract_plan_text\<close>. None of \<open>replace\<close>, \<open>strip\<close> and \<open>re.search\<close> raises on a
  \<open>str\<close>, so the \<open>except\<close> branch with its error text is never taken.
\<close>

definition extract_plan_text :: "str \<Rightarrow> str" where
  "extract_plan_text text =
     (let plan_text = strip (replace text END_OF_PLAN []);
          plan_text' = (case re_search plan_text of
                          None \<Rightarrow> plan_text
                        | Some (g0, g1) \<Rightarrow> strip (replace plan_text g0 []))
      in strip plan_text')"

section \<open>The store\<close>

text \<open>
  The three tables. A row of \<open>users\<close> is a dict with the column \<open>user_id\<close>; a timestamp
  is a clock reading (the text \<open>isoformat\<close> makes of it is not modelled).
\<close>

record plan_row =
  user_id :: int
  plan_text :: str
  profile_json :: dict
  start_date :: nat
  end_date :: "nat option"

datatype turn = Turn int str str

datatype request =
    SelectUser int
  | SelectOpenPlan int
  | InsertTurn turn
  | UpsertUser dict
  | ClosePlans int nat
  | InsertPlan plan_row

text \<open>
  The world outside the program: the tables, every request sent so far, and for the
  requests still to come whether each one raises (transport, authentication, a rejected
  payload); once the list is used up no request raises. A request that raises changes
  no table.
\<close>

record world =
  users :: "dict list"
  plan_history :: "plan_row list"
  conversation_history :: "turn list"
  requests :: "request list"
  faults :: "bool list"

definition USER_ID :: str where
  "USER_ID = pystr ''user_id''"

text \<open>
  An upsert on the primary key \<open>user_id\<close>: the columns of the payload overwrite those of
  the row with the same key, or the payload becomes a new row.
\<close>

definition upsert :: "dict \<Rightarrow> dict list \<Rightarrow> dict list" where
  "upsert row tbl =
     (if list_ex (\<lambda>r. map_of r USER_ID = map_of row USER_ID) tbl
      then map (\<lambda>r. if map_of r USER_ID = map_of row USER_ID
                     then foldl (\<lambda>d (k, v). AList.update k v d) r row else r) tbl
      else tbl @ [row])"

definition close_plans :: "int \<Rightarrow> nat \<Rightarrow> plan_row list \<Rightarrow> plan_row list" where
  "close_plans uid now tbl =
     map (\<lambda>p. if user_id p = uid \<and> end_date p = None then p\<lparr>end_date := Some now\<rparr> else p) tbl"

fun apply_request :: "request \<Rightarrow> world \<Rightarrow> world" where
  "apply_request (SelectUser uid) w = w"
| "apply_request (SelectOpenPlan uid) w = w"
| "apply_request (InsertTurn t) w = w\<lparr>conversation_history := conversation_history w @ [t]\<rparr>"
| "apply_request (UpsertUser row) w = w\<lparr>users := upsert row (users w)\<rparr>"
| "apply_request (ClosePlans uid now) w = w\<lparr>plan_history := close_plans uid now (plan_history w)\<rparr>"
| "apply_request (InsertPlan p) w = w\<lparr>plan_history := plan_history w @ [p]\<rparr>"

text \<open>\<open>.execute()\<close>: whether the request went through, and the world after it.\<close>

definition execute :: "request \<Rightarrow> world \<Rightarrow> bool \<times> world" where
  "execute r w =
     (let w' = w\<lparr>requests := requests w @ [r], faults := tl (faults w)\<rparr>
      in if faults w \<noteq> [] \<and> hd (faults w) then (False, w') else (True, apply_request r w'))"

text \<open>The request after the next \<open>n\<close> ones raises.\<close>

definition raises :: "nat \<Rightarrow> world \<Rightarrow> bool" where
  "raises n w \<longleftrightarrow> n < length (faults w) \<and> faults w ! n"

definition select_user :: "int \<Rightarrow> world \<Rightarrow> dict list" where
  "select_user uid w = filter (\<lambda>r. map_of r USER_ID = Some (JInt uid)) (users w)"

definition open_plans :: "int \<Rightarrow> plan_row list \<Rightarrow> plan_row list" where
  "open_plans uid tbl = filter (\<lambda>p. user_id p = uid \<and> end_date p = None) tbl"

text \<open>The open plans of a user, latest \<open>start_date\<close> first, at most one of them.\<close>

definition select_open_plan :: "int \<Rightarrow> world \<Rightarrow> plan_row list" where
  "select_open_plan uid w = take 1 (rev (sort_key start_date (open_plans uid (plan_history w))))"

section \<open>The storage helpers\<close>

text \<open>\<open>_load_profile\<close>: the profile row and the text of the last open plan, or \<open>None\<close>.\<close>

definition load_profile :: "bot \<Rightarrow> int \<Rightarrow> world \<Rightarrow> (dict \<times> str) option \<times> world" where
  "load_profile b uid w =
     (if \<not> supabase b then (None, w)
      else
        (let (ok1, w1) = execute (SelectUser uid) w
         in if \<not> ok1 then (None, w1)
            else
              (case select_user uid w1 of
                 [] \<Rightarrow> (None, w1)
               | profile # _ \<Rightarrow>
                   (let (ok2, w2) = execute (SelectOpenPlan uid) w1
                    in if \<not> ok2 then (None, w2)
                       else
                         (let last_plan = (case select_open_plan uid w2 of
                                             [] \<Rightarrow> pystr ''No previous plan found.''
                                           | p # _ \<Rightarrow> plan_text p)
                          in (Some (profile, last_plan), w2))))))"

definition log_conversation :: "bot \<Rightarrow> int \<Rightarrow> str \<Rightarrow> str \<Rightarrow> world \<Rightarrow> world" where
  "log_conversation b uid sender message w =
     (if \<not> supabase b then w
      else snd (execute (InsertTurn (Turn uid sender message)) w))"

text \<open>
  \<open>save_new_plan_and_profile\<close>, with the clock reading \<open>now_iso\<close> as an argument. An
  exception of a request ends the \<open>try\<close> block: the requests after it are not sent.
\<close>

definition save_new_plan_and_profile :: "bot \<Rightarrow> int \<Rightarrow> dict \<Rightarrow> str \<Rightarrow> nat \<Rightarrow> world \<Rightarrow> world" where
  "save_new_plan_and_profile b uid profile plan now_iso w =
     (if \<not> supabase b \<or> profile = [] then w
      else
        (let profile_to_save = AList.update USER_ID (JInt uid) profile;
             (ok1, w1) = execute (UpsertUser profile_to_save) w
         in if \<not> ok1 then w1
            else
              (let (ok2, w2) = execute (ClosePlans uid now_iso) w1
               in if \<not> ok2 then w2
                  else snd (execute (InsertPlan \<lparr>user_id = uid, plan_text = plan,
                                                 profile_json = profile, start_date = now_iso,
                                                 end_date = None\<rparr>) w2))))"

section \<open>The chat handler\<close>

definition NOT_CONFIGURED :: str where
  "NOT_CONFIGURED = pystr ''AI brain not configured. Contact admin.''"

definition APOLOGY :: str where
  "APOLOGY = pystr ''Sorry, I had a problem. Please try again in a moment.''"

text \<open>The reminder appended to the first message of a session (two line feeds first).\<close>

definition FIRST_REMINDER :: str where
  "FIRST_REMINDER = [0x0A, 0x0A] @ pystr (''REMINDER: If generating a full wellness plan, you MUST follow RULE A: '' @
     ''Start with [USER_DATA_JSON] {...} then 10 numbered points, then [END_OF_PLAN].'')"

text \<open>The reminder appended to every later message.\<close>

definition REMINDER :: str where
  "REMINDER = [0x0A, 0x0A] @ pystr (''REMINDER: If the user is asking for a new or updated wellness PLAN, '' @
     ''you MUST follow RULE A and include [USER_DATA_JSON] on the first line and '' @
     ''[END_OF_PLAN] as the last token of the message.'')"

text \<open>
  \<open>initial_prompt\<close>, the priming text that lines 250 to 268 build on the first message of
  a session. It is kept as its ingredients: for a returning user the profile, the last
  plan and the name to greet (\<open>profile.get("name", "friend")\<close>), for a new user nothing
  but the message.
\<close>

datatype priming =
    ReturningUser dict str json str
  | BrandNewUser str

definition initial_prompt :: "(dict \<times> str) option \<Rightarrow> str \<Rightarrow> priming" where
  "initial_prompt user_data user_message =
     (case user_data of
        Some (profile, last_plan) \<Rightarrow>
          ReturningUser profile last_plan
            (case map_of profile (pystr ''name'') of None \<Rightarrow> JString (pystr ''friend'') | Some n \<Rightarrow> n)
            user_message
      | None \<Rightarrow> BrandNewUser user_message)"

text \<open>
  What one turn gets from outside: whether the typing indicator went out, the text the
  model engine answers with (\<open>None\<close> when \<open>send_message_async\<close> or \<open>response.text\<close>
  raises), and the clock.
\<close>

record turn_env =
  typing_ok :: bool
  response :: "str option"
  clock :: nat

text \<open>
  What one turn does: the texts handed to \<open>reply_text\<close>, the texts handed to
  \<open>send_message_async\<close>, the priming text if one was built, the chat session kept in
  \<open>context.user_data\<close> (the exchanges so far, \<open>None\<close> when there is none), and the world.
\<close>

record turn_result =
  replies :: "str list"
  forwarded :: "str list"
  primed :: "priming option"
  chat_session :: "(str \<times> str) list option"
  after :: world

text \<open>
  Lines 287 to 300: the reply to an answer of the model engine. An exception that leaves
  \<open>_extract_profile_json\<close> is caught by the handler's \<open>except Exception\<close> (line 302),
  which replies with the apology. The decoded payload is a dict whenever there is one
  (\<open>extract_profile_json_dict\<close>), so the last case is never taken.
\<close>

definition deliver :: "bot \<Rightarrow> int \<Rightarrow> str \<Rightarrow> nat \<Rightarrow> world \<Rightarrow> str \<times> world" where
  "deliver b uid ai_message now w =
     (if contains ai_message END_OF_PLAN then
        (case extract_profile_json b ai_message of
           Inl e \<Rightarrow> (APOLOGY, w)
         | Inr None \<Rightarrow> (strip (replace ai_message END_OF_PLAN []), w)
         | Inr (Some (JObject payload)) \<Rightarrow>
             if payload = [] then (strip (replace ai_message END_OF_PLAN []), w)
             else
               (let plan = extract_plan_text ai_message;
                    w' = save_new_plan_and_profile b uid payload plan now w
                in (strip plan, w'))
         | Inr (Some _) \<Rightarrow> (APOLOGY, w))
      else (ai_message, w))"

text \<open>\<open>main_chat_handler\<close> for the message \<open>user_message\<close> of the user \<open>uid\<close>.\<close>

definition main_chat_handler ::
  "bot \<Rightarrow> (str \<times> str) list option \<Rightarrow> int \<Rightarrow> str \<Rightarrow> turn_env \<Rightarrow> world \<Rightarrow> turn_result" where
  "main_chat_handler b user_data uid user_message env w =
     (if \<not> model b then
        \<lparr>replies = [NOT_CONFIGURED], forwarded = [], primed = None,
         chat_session = user_data, after = w\<rparr>
      else
        (let w1 = log_conversation b uid (pystr ''user'') user_message w
         in if \<not> typing_ok env then
              \<lparr>replies = [APOLOGY], forwarded = [], primed = None,
               chat_session = user_data, after = w1\<rparr>
            else
              (let (history, prompt, message, w2) =
                     (case user_data of
                        None \<Rightarrow>
                          (let (loaded, w2) = load_profile b uid w1
                           in ([], Some (initial_prompt loaded user_message),
                               user_message @ FIRST_REMINDER, w2))
                      | Some h \<Rightarrow> (h, None, user_message @ REMINDER, w1))
               in case response env of
                    None \<Rightarrow>
                      \<lparr>replies = [APOLOGY], forwarded = [message], primed = prompt,
                       chat_session = Some history, after = w2\<rparr>
                  | Some ai_message \<Rightarrow>
                      (let w3 = log_conversation b uid (pystr ''ai'') ai_message w2;
                           (reply, w4) = deliver b uid ai_message (clock env) w3
                       in \<lparr>replies = [reply], forwarded = [message], primed = prompt,
                           chat_session = Some (history @ [(message, ai_message)]),
                           after = w4\<rparr>))))"

text \<open>\<open>reset_chat\<close>: \<open>context.user_data.clear()\<close> and a confirmation.\<close>

definition reset_chat :: "(str \<times> str) list option \<Rightarrow> str \<times> (str \<times> str) list option" where
  "reset_chat user_data = (pystr ''I have cleared our conversation. We can start fresh!'', None)"

section \<open>What a turn leaves in the store\<close>

text \<open>
  The requests that write a profile or a plan: the upsert of the profile, the closing of
  the open plans and the insertion of a plan.
\<close>

fun is_persistence :: "request \<Rightarrow> bool" where
  "is_persistence (UpsertUser row) = True"
| "is_persistence (ClosePlans uid now) = True"
| "is_persistence (InsertPlan p) = True"
| "is_persistence _ = False"

text \<open>
  Between two worlds nothing was persisted: both tables are as they were and no request
  sent in between writes a profile or a plan.
\<close>

definition no_persistence :: "world \<Rightarrow> world \<Rightarrow> bool" where
  "no_persistence w w' \<longleftrightarrow>
     users w' = users w \<and> plan_history w' = plan_history w \<and>
     (\<exists>new. requests w' = requests w @ new \<and> filter is_persistence new = [])"

section \<open>Facts about texts and the payload pattern\<close>

lemma contains_iff_sublist: "contains s sub \<longleftrightarrow> sublist sub s"
  by (induction s) (auto simp: sublist_Cons_right)

lemma contains_append: "contains (pre @ sub @ post) sub"
  by (simp add: contains_iff_sublist)

lemma USER_DATA_JSON_eq:
  "USER_DATA_JSON = [91, 85, 83, 69, 82, 95, 68, 65, 84, 65, 95, 74, 83, 79, 78, 93]"
  by (simp add: USER_DATA_JSON_def pystr_def)

lemma marker_shape:
  "length USER_DATA_JSON = 16" "last USER_DATA_JSON = 93" "93 \<notin> set (butlast USER_DATA_JSON)"
  by (simp_all add: USER_DATA_JSON_eq)

lemma marker_no_straddle:
  assumes "prefix USER_DATA_JSON (xs @ USER_DATA_JSON @ rest)" and "xs \<noteq> []"
  shows "prefix USER_DATA_JSON xs"
proof (cases "length xs \<ge> 16")
  case True
  then show ?thesis using assms(1) marker_shape(1)
    by (metis prefix_length_prefix prefixI)
next
  case False
  define k where "k = 16 - length xs"
  have k: "0 < k" "k < 16" using False assms(2) by (auto simp: k_def)
  from assms(1) have "USER_DATA_JSON = take 16 (xs @ USER_DATA_JSON @ rest)"
    using marker_shape(1) by (metis append_eq_conv_conj prefix_def)
  also have "\<dots> = xs @ take k USER_DATA_JSON"
    using False marker_shape(1) by (simp add: k_def)
  finally have eq: "USER_DATA_JSON = xs @ take k USER_DATA_JSON" .
  have ne: "take k USER_DATA_JSON \<noteq> []" using k marker_shape(1) by auto
  have "last USER_DATA_JSON = last (take k USER_DATA_JSON)"
    using eq ne by (metis last_appendR)
  moreover have "take k USER_DATA_JSON = take k (butlast USER_DATA_JSON)"
    using k marker_shape(1) by (simp add: take_butlast)
  moreover have "last (take k (butlast USER_DATA_JSON)) \<in> set (butlast USER_DATA_JSON)"
    using ne calculation(2) by (metis in_set_takeD last_in_set)
  ultimately show ?thesis using marker_shape(2,3) by simp
qed

lemma match_here_None: "\<not> prefix USER_DATA_JSON s \<Longrightarrow> match_here s = None"
  by (simp add: match_here_def)

lemma re_search_skip:
  "\<not> contains pre USER_DATA_JSON \<Longrightarrow>
   re_search (pre @ USER_DATA_JSON @ rest) = re_search (USER_DATA_JSON @ rest)"
proof (induction pre)
  case Nil
  then show ?case by simp
next
  case (Cons c pre)
  have "\<not> prefix USER_DATA_JSON ((c # pre) @ USER_DATA_JSON @ rest)"
    using Cons.prems marker_no_straddle [of "c # pre" rest] by auto
  then have "match_here (c # pre @ USER_DATA_JSON @ rest) = None"
    by (simp add: match_here_None)
  moreover have "\<not> contains pre USER_DATA_JSON" using Cons.prems by simp
  ultimately show ?case using Cons.IH by simp
qed


lemma not_isspace_brace: "\<not> isspace 123"
  by (simp add: isspace_def)

lemma takeWhile_all: "\<forall>x\<in>set xs. P x \<Longrightarrow> \<not> P y \<Longrightarrow> takeWhile P (xs @ y # ys) = xs"
  by (induction xs) auto

lemma dropWhile_all: "\<forall>x\<in>set xs. P x \<Longrightarrow> \<not> P y \<Longrightarrow> dropWhile P (xs @ y # ys) = y # ys"
  by (induction xs) auto

lemma match_here_span:
  assumes "\<forall>c\<in>set ws. isspace c" and "125 \<notin> set body"
  shows "match_here (USER_DATA_JSON @ ws @ 123 # body @ 125 # post) =
         Some (USER_DATA_JSON @ ws @ 123 # body @ [125], 123 # body @ [125])"
proof -
  have tw: "takeWhile isspace (ws @ 123 # body @ 125 # post) = ws"
    using assms(1) not_isspace_brace by (rule takeWhile_all)
  have dw: "dropWhile isspace (ws @ 123 # body @ 125 # post) = 123 # body @ 125 # post"
    using assms(1) not_isspace_brace by (rule dropWhile_all)
  have tk: "takeWhile (\<lambda>x. x \<noteq> 125) (body @ 125 # post) = body"
    using assms(2) by (intro takeWhile_all) auto
  show ?thesis
    by (simp add: match_here_def Let_def tw dw tk)
qed

lemma re_search_span:
  assumes "\<not> contains pre USER_DATA_JSON" "\<forall>c\<in>set ws. isspace c" and "125 \<notin> set body"
  shows "re_search (pre @ USER_DATA_JSON @ ws @ 123 # body @ 125 # post) =
         Some (USER_DATA_JSON @ ws @ 123 # body @ [125], 123 # body @ [125])"
proof -
  obtain m ms where m: "USER_DATA_JSON = m # ms" by (simp add: USER_DATA_JSON_eq)
  have "re_search (USER_DATA_JSON @ ws @ 123 # body @ 125 # post) =
         Some (USER_DATA_JSON @ ws @ 123 # body @ [125], 123 # body @ [125])"
    using match_here_span [OF assms(2,3), of post] by (simp add: m)
  then show ?thesis using re_search_skip [OF assms(1)] by simp
qed

section \<open>Facts about the handler\<close>

lemma no_persistence_refl: "no_persistence w w"
  by (simp add: no_persistence_def)

lemma no_persistence_trans:
  "no_persistence w w1 \<Longrightarrow> no_persistence w1 w2 \<Longrightarrow> no_persistence w w2"
  by (auto simp: no_persistence_def)

lemma execute_no_persistence:
  "\<not> is_persistence r \<Longrightarrow> no_persistence w (snd (execute r w))"
  by (cases r) (auto simp: no_persistence_def execute_def Let_def)

lemma log_conversation_no_persistence:
  "no_persistence w (log_conversation b uid sender message w)"
  by (simp add: log_conversation_def execute_no_persistence no_persistence_refl)

lemma load_profile_no_persistence:
  "no_persistence w (snd (load_profile b uid w))"
proof -
  have a: "no_persistence w (snd (execute (SelectUser uid) w))"
    by (simp add: execute_no_persistence)
  have b: "\<And>w1. no_persistence w1 (snd (execute (SelectOpenPlan uid) w1))"
    by (simp add: execute_no_persistence)
  show ?thesis
    using a b [of "snd (execute (SelectUser uid) w)"]
    by (auto simp: load_profile_def Let_def no_persistence_refl split: prod.splits list.splits
             intro: no_persistence_trans)
qed

lemma deliver_plain:
  "\<not> contains ai_message END_OF_PLAN \<Longrightarrow> deliver b uid ai_message now w = (ai_message, w)"
  by (simp add: deliver_def)

lemma deliver_fallback:
  "contains ai_message END_OF_PLAN \<Longrightarrow> extract_profile_json b ai_message = Inr None \<Longrightarrow>
   deliver b uid ai_message now w = (strip (replace ai_message END_OF_PLAN []), w)"
  by (simp add: deliver_def)

lemma deliver_raised:
  "contains ai_message END_OF_PLAN \<Longrightarrow> extract_profile_json b ai_message = Inl e \<Longrightarrow>
   deliver b uid ai_message now w = (APOLOGY, w)"
  by (simp add: deliver_def)

lemma handler_answered:
  assumes "model b" "typing_ok env" "response env = Some ai_message"
  shows "\<exists>w3. no_persistence w w3 \<and>
           replies (main_chat_handler b user_data uid user_message env w) = [fst (deliver b uid ai_message (clock env) w3)] \<and>
           after (main_chat_handler b user_data uid user_message env w) = snd (deliver b uid ai_message (clock env) w3)"
proof (cases user_data)
  case None
  let ?w1 = "log_conversation b uid (pystr ''user'') user_message w"
  let ?w2 = "snd (load_profile b uid ?w1)"
  let ?w3 = "log_conversation b uid (pystr ''ai'') ai_message ?w2"
  have "no_persistence w ?w3"
    by (meson no_persistence_trans log_conversation_no_persistence load_profile_no_persistence)
  then show ?thesis using assms None
    by (intro exI [of _ ?w3]) (simp add: main_chat_handler_def Let_def split: prod.splits)
next
  case (Some h)
  let ?w1 = "log_conversation b uid (pystr ''user'') user_message w"
  let ?w3 = "log_conversation b uid (pystr ''ai'') ai_message ?w1"
  have "no_persistence w ?w3"
    by (meson no_persistence_trans log_conversation_no_persistence)
  then show ?thesis using assms Some
    by (intro exI [of _ ?w3]) (simp add: main_chat_handler_def Let_def split: prod.splits)
qed

section \<open>The decoder consumes what it reads\<close>

text \<open>A value takes at least one code point, so the decoder always makes progress.\<close>

lemma match_sign_shorter: "length (snd (match_sign s)) \<le> length s"
  by (simp add: match_sign_def split: list.splits)

lemma match_int_shorter: "match_int s = Some (i, r) \<Longrightarrow> length r < length s"
  using length_dropWhile_le [of is_digit "tl s"]
  by (auto simp: match_int_def less_Suc_eq_le split: list.splits if_splits)

lemma match_frac_shorter: "length (snd (match_frac s)) \<le> length s"
proof (cases s rule: list.exhaust)
  case Nil
  then show ?thesis by (simp add: match_frac_def)
next
  case (Cons p t)
  show ?thesis
  proof (cases t)
    case Nil
    then show ?thesis using Cons by (simp add: match_frac_def)
  next
    case (Cons q qs)
    have "length (dropWhile is_digit qs) \<le> length qs" by (rule length_dropWhile_le)
    then show ?thesis using \<open>s = p # t\<close> Cons by (simp add: match_frac_def)
  qed
qed

lemma match_exp_shorter: "length (snd (match_exp s)) \<le> length s"
proof (cases s)
  case Nil
  then show ?thesis by (simp add: match_exp_def)
next
  case (Cons e es)
  define ds where "ds = (case es of x # xs \<Rightarrow> if x = 43 \<or> x = 45 then xs else es | [] \<Rightarrow> es)"
  have l: "length ds \<le> length es" by (auto simp: ds_def split: list.splits)
  show ?thesis
  proof (cases ds)
    case Nil
    then show ?thesis using Cons
      by (auto simp: match_exp_def ds_def Let_def split: list.splits prod.splits if_splits)
  next
    case (Cons y ys)
    have "length (dropWhile is_digit ys) \<le> length ys" by (rule length_dropWhile_le)
    then have "length (dropWhile is_digit ys) \<le> length s"
      using l Cons \<open>s = e # es\<close> by simp
    then show ?thesis using Cons \<open>s = e # es\<close>
      by (auto simp: match_exp_def ds_def Let_def split: list.splits prod.splits if_splits)
  qed
qed

lemma match_number_shorter:
  assumes "match_number s = Some (g, r)"
  shows "length r < length s"
proof -
  obtain sign s1 where a: "match_sign s = (sign, s1)" by fastforce
  obtain ipart s2 where b: "match_int s1 = Some (ipart, s2)"
    using assms a by (auto simp: match_number_def split: option.splits)
  obtain frac s3 where c: "match_frac s2 = (frac, s3)" by fastforce
  obtain ex s4 where d: "match_exp s3 = (ex, s4)" by fastforce
  have "r = s4" using assms a b c d by (simp add: match_number_def)
  moreover have "length s1 \<le> length s" using match_sign_shorter [of s] a by simp
  moreover have "length s2 < length s1" using b by (rule match_int_shorter)
  moreover have "length s3 \<le> length s2" using match_frac_shorter [of s2] c by simp
  moreover have "length s4 \<le> length s3" using match_exp_shorter [of s3] d by simp
  ultimately show ?thesis by simp
qed

lemma JSONObject_shorter: "JSONObject m room pairs s = Inr (v, r) \<Longrightarrow> length r < length s"
proof (induction "length s" arbitrary: pairs s rule: less_induct)
  case less
  obtain key s1 where k: "scanstring s = Some (key, s1)"
    using less.prems by (subst (asm) JSONObject.simps) (auto split: option.splits)
  obtain colon s2 where c: "skip_ws s1 = colon # s2"
    using less.prems k by (subst (asm) JSONObject.simps) (auto split: list.splits)
  obtain x s3 where x: "scan_once m room (skip_ws s2) = Inr (x, s3)"
    using less.prems k c by (subst (asm) JSONObject.simps) (auto split: sum.splits if_splits)
  have g: "length s3 < length (skip_ws s2)"
    using less.prems k c x by (subst (asm) JSONObject.simps) (auto split: if_splits)
  obtain n s4 where n: "skip_ws s3 = n # s4"
    using less.prems k c x g by (subst (asm) JSONObject.simps) (auto split: list.splits if_splits)
  have l1: "length s1 < length s" using k by (rule scanstring_shorter)
  have l2: "length s2 < length s1" using c by (rule skip_ws_Cons_length)
  have l3: "length (skip_ws s2) \<le> length s2" by (rule skip_ws_length)
  have l4: "length s4 < length s3" using n by (rule skip_ws_Cons_length)
  have l: "length s4 < length s" using l1 l2 l3 g l4 by simp
  show ?case
  proof (cases "n = 125")
    case True
    then have "r = s4"
      using less.prems k c x g n by (subst (asm) JSONObject.simps) (auto split: if_splits)
    then show ?thesis using l by simp
  next
    case False
    then obtain q s5 where q: "skip_ws s4 = q # s5"
      using less.prems k c x g n
      by (subst (asm) JSONObject.simps) (auto split: list.splits if_splits)
    have r: "JSONObject m room (pairs @ [(key, x)]) s5 = Inr (v, r)"
      using less.prems k c x g n q False
      by (subst (asm) JSONObject.simps) (auto split: if_splits)
    have l5: "length s5 < length s4" using q by (rule skip_ws_Cons_length)
    then have "length s5 < length s" using l by simp
    then have "length r < length s5" using r by (rule less.hyps)
    then show ?thesis using l5 l by simp
  qed
qed

lemma JSONArray_shorter: "JSONArray m room vals s = Inr (v, r) \<Longrightarrow> length r < length s"
proof (induction "length s" arbitrary: vals s rule: less_induct)
  case less
  obtain x s1 where x: "scan_once m room s = Inr (x, s1)"
    using less.prems by (subst (asm) JSONArray.simps) (auto split: sum.splits)
  have g: "length s1 < length s"
    using less.prems x by (subst (asm) JSONArray.simps) (auto split: if_splits)
  obtain n s2 where n: "skip_ws s1 = n # s2"
    using less.prems x g by (subst (asm) JSONArray.simps) (auto split: list.splits if_splits)
  have l2: "length s2 < length s1" using n by (rule skip_ws_Cons_length)
  show ?case
  proof (cases "n = 93")
    case True
    then have "r = s2"
      using less.prems x g n by (subst (asm) JSONArray.simps) (auto split: if_splits)
    then show ?thesis using l2 g by simp
  next
    case False
    then have r: "JSONArray m room (vals @ [x]) (skip_ws s2) = Inr (v, r)"
      using less.prems x g n by (subst (asm) JSONArray.simps) (auto split: if_splits)
    have l3: "length (skip_ws s2) \<le> length s2" by (rule skip_ws_length)
    then have "length (skip_ws s2) < length s" using l2 g by simp
    then have "length r < length (skip_ws s2)" using r by (rule less.hyps)
    then show ?thesis using l3 l2 g by simp
  qed
qed

lemma scan_once_shorter: "scan_once m room s = Inr (v, r) \<Longrightarrow> length r < length s"
proof (cases s)
  case Nil
  assume "scan_once m room s = Inr (v, r)"
  then show ?thesis using Nil by (simp add: scan_once.simps)
next
  case (Cons c cs)
  assume a: "scan_once m room s = Inr (v, r)"
  have ws: "\<And>n t. skip_ws cs = n # t \<Longrightarrow> length t < length cs"
    by (rule skip_ws_Cons_length)
  have ws': "length (skip_ws cs) \<le> length cs" by (rule skip_ws_length)
  consider (str) "c = 34" | (obj) "c = 123" | (arr) "c = 91" | (other) "c \<noteq> 34" "c \<noteq> 123" "c \<noteq> 91"
    by blast
  then show ?thesis
  proof cases
    case str
    then obtain t where "scanstring cs = Some (t, r)"
      using a Cons by (subst (asm) scan_once.simps) (auto split: option.splits)
    then have "length r < length cs" by (rule scanstring_shorter)
    then show ?thesis using Cons by simp
  next
    case obj
    then obtain inner where i: "room = Suc inner"
      using a Cons by (subst (asm) scan_once.simps) (auto split: nat.splits)
    obtain n t where n: "skip_ws cs = n # t"
      using a Cons obj i by (subst (asm) scan_once.simps) (auto split: list.splits)
    then have "r = t \<or> JSONObject m inner [] t = Inr (v, r)"
      using a Cons obj i by (subst (asm) scan_once.simps) (auto split: if_splits)
    then have "length r \<le> length t" using JSONObject_shorter [of m inner "[]" t v r] by auto
    then show ?thesis using ws [OF n] Cons by simp
  next
    case arr
    then obtain inner where i: "room = Suc inner"
      using a Cons by (subst (asm) scan_once.simps) (auto split: nat.splits)
    obtain n t where n: "skip_ws cs = n # t"
      using a Cons arr i by (subst (asm) scan_once.simps) (auto split: list.splits)
    then have "r = t \<or> JSONArray m inner [] (n # t) = Inr (v, r)"
      using a Cons arr i by (subst (asm) scan_once.simps) (auto split: if_splits)
    then have "length r \<le> length (n # t)" using JSONArray_shorter [of m inner "[]" "n # t" v r] by auto
    then show ?thesis using ws' n Cons by simp
  next
    case other
    have "r = drop 4 s \<or> r = drop 5 s \<or> r = drop 3 s \<or> r = drop 8 s \<or> r = drop 9 s \<or>
          (\<exists>g. match_number s = Some (g, r))"
      using a Cons other
      by (subst (asm) scan_once.simps)
         (auto split: if_splits option.splits prod.splits sum.splits)
    moreover have "length (drop 4 s) < length s" "length (drop 5 s) < length s"
      "length (drop 3 s) < length s" "length (drop 8 s) < length s" "length (drop 9 s) < length s"
      using Cons by simp_all
    ultimately show ?thesis using match_number_shorter by metis
  qed
qed

section \<open>The decoded payload is a dict\<close>






section \<open>Nesting deeper than the interpreter has room for\<close>

text \<open>
  One array more than there is room for ends in \<open>RecursionError\<close>, whatever follows the
  opening brackets.
\<close>

lemma scan_once_deep:
  "scan_once m room (replicate (Suc room) 91 @ rest) = Inl RecursionError"
proof (induction room arbitrary: rest)
  case 0
  show ?case by (simp add: scan_once.simps)
next
  case (Suc room)
  have "JSONArray m room [] (replicate (Suc room) 91 @ rest) = Inl RecursionError"
    by (subst JSONArray.simps) (simp only: Suc.IH sum.case)
  then show ?case
    by (subst scan_once.simps) (simp add: skip_ws_def json_ws_def)
qed

lemma json_loads_deep:
  assumes "recursion_room i < n"
  shows "json_loads i (123 # (pystr ''\"a\":'' @ replicate n 91) @ [125]) = Inl RecursionError"
proof -
  obtain k where n: "n = Suc (recursion_room i) + k"
    using assms less_iff_Suc_add by auto
  have r: "replicate n 91 @ [125] = replicate (Suc (recursion_room i)) 91 @ replicate k (91::nat) @ [125]"
    by (simp add: n replicate_add)
  have "scan_once (int_max_str_digits i) (recursion_room i) (replicate n 91 @ [125]) = Inl RecursionError"
    unfolding r by (rule scan_once_deep)
  then have "JSONObject (int_max_str_digits i) (recursion_room i) [] (pystr ''a\":'' @ replicate n 91 @ [125])
          = Inl RecursionError"
    using assms
    by (subst JSONObject.simps) (simp add: pystr_def emit_def skip_ws_def json_ws_def n)
  then show ?thesis
    by (simp add: json_loads_def scan_once.simps skip_ws_def json_ws_def pystr_def)
qed

section \<open>Saving plans\<close>

text \<open>At most one plan of every user is open (has no \<open>end_date\<close>).\<close>

definition one_open :: "plan_row list \<Rightarrow> bool" where
  "one_open tbl \<longleftrightarrow> (\<forall>uid. length (open_plans uid tbl) \<le> 1)"

text \<open>Calls of \<open>save_new_plan_and_profile\<close> one after the other.\<close>

fun save_all :: "bot \<Rightarrow> (int \<times> dict \<times> str \<times> nat) list \<Rightarrow> world \<Rightarrow> world" where
  "save_all b [] w = w"
| "save_all b ((uid, profile, plan, now_iso) # calls) w =
     save_all b calls (save_new_plan_and_profile b uid profile plan now_iso w)"

text \<open>The row that \<open>save_new_plan_and_profile\<close> inserts.\<close>

definition new_row :: "int \<Rightarrow> dict \<Rightarrow> str \<Rightarrow> nat \<Rightarrow> plan_row" where
  "new_row uid profile plan now_iso =
     \<lparr>user_id = uid, plan_text = plan, profile_json = profile, start_date = now_iso, end_date = None\<rparr>"

lemma open_plans_close_same [simp]: "open_plans uid (close_plans uid now tbl) = []"
  by (induction tbl) (auto simp: open_plans_def close_plans_def)

lemma open_plans_close_other [simp]:
  "uid' \<noteq> uid \<Longrightarrow> open_plans uid' (close_plans uid now tbl) = open_plans uid' tbl"
  by (induction tbl) (auto simp: open_plans_def close_plans_def)

lemma open_plans_append [simp]: "open_plans uid (xs @ ys) = open_plans uid xs @ open_plans uid ys"
  by (simp add: open_plans_def)

lemma open_plans_new_row [simp]:
  "open_plans uid' [new_row uid profile plan now] = (if uid' = uid then [new_row uid profile plan now] else [])"
  by (simp add: open_plans_def new_row_def)

lemma one_open_close: "one_open tbl \<Longrightarrow> one_open (close_plans uid now tbl)"
  unfolding one_open_def
proof
  fix u assume a: "\<forall>uid. length (open_plans uid tbl) \<le> 1"
  show "length (open_plans u (close_plans uid now tbl)) \<le> 1"
    using a [rule_format, of u] by (cases "u = uid") simp_all
qed

lemma one_open_close_insert:
  "one_open tbl \<Longrightarrow> one_open (close_plans uid now tbl @ [new_row uid profile plan now])"
  unfolding one_open_def
proof
  fix u assume a: "\<forall>uid. length (open_plans uid tbl) \<le> 1"
  show "length (open_plans u (close_plans uid now tbl @ [new_row uid profile plan now])) \<le> 1"
    using a [rule_format, of u] by (cases "u = uid") simp_all
qed

lemma plan_history_execute:
  "plan_history (snd (execute r w)) =
     (if fst (execute r w) then plan_history (apply_request r w) else plan_history w)"
  by (cases r) (simp_all add: execute_def Let_def)

lemma save_plan_history_cases:
  "plan_history (save_new_plan_and_profile b uid profile plan now w) = plan_history w \<or>
   plan_history (save_new_plan_and_profile b uid profile plan now w) = close_plans uid now (plan_history w) \<or>
   plan_history (save_new_plan_and_profile b uid profile plan now w) =
     close_plans uid now (plan_history w) @ [new_row uid profile plan now]"
proof -
  let ?r1 = "UpsertUser (AList.update USER_ID (JInt uid) profile)"
  let ?r2 = "ClosePlans uid now"
  let ?r3 = "InsertPlan (new_row uid profile plan now)"
  obtain ok1 w1 where e1: "execute ?r1 w = (ok1, w1)" by fastforce
  obtain ok2 w2 where e2: "execute ?r2 w1 = (ok2, w2)" by fastforce
  obtain ok3 w3 where e3: "execute ?r3 w2 = (ok3, w3)" by fastforce
  have p1: "plan_history w1 = plan_history w"
    using plan_history_execute [of ?r1 w] by (simp add: e1)
  have p2: "plan_history w2 = (if ok2 then close_plans uid now (plan_history w) else plan_history w)"
    using plan_history_execute [of ?r2 w1] by (simp add: e2 p1)
  have p3: "plan_history w3 = (if ok3 then plan_history w2 @ [new_row uid profile plan now] else plan_history w2)"
    using plan_history_execute [of ?r3 w2] by (simp add: e3)
  have "save_new_plan_and_profile b uid profile plan now w =
          (if \<not> supabase b \<or> profile = [] then w else if \<not> ok1 then w1 else if \<not> ok2 then w2 else w3)"
    by (simp add: save_new_plan_and_profile_def Let_def e1 e2 new_row_def [symmetric] e3)
  then show ?thesis using p1 p2 p3 by auto
qed

lemma save_one_open:
  "one_open (plan_history w) \<Longrightarrow>
   one_open (plan_history (save_new_plan_and_profile b uid profile plan now w))"
  using save_plan_history_cases [of b uid profile plan now w]
  by (auto intro: one_open_close one_open_close_insert)

lemma save_all_one_open:
  "one_open (plan_history w) \<Longrightarrow> one_open (plan_history (save_all b calls w))"
  by (induction calls arbitrary: w) (auto simp: save_one_open)

lemma tl_no_fault: "\<forall>f\<in>set xs. \<not> f \<Longrightarrow> \<forall>f\<in>set (tl xs). \<not> f"
  by (cases xs) auto

lemma fst_execute_ok: "\<forall>f\<in>set (faults w). \<not> f \<Longrightarrow> fst (execute r w)"
  by (cases "faults w") (auto simp: execute_def Let_def)

lemma faults_execute: "faults (snd (execute r w)) = tl (faults w)"
  by (cases r) (simp_all add: execute_def Let_def)

lemma save_succeeds:
  assumes "supabase b" "profile \<noteq> []" "\<forall>f\<in>set (faults w). \<not> f"
  shows "plan_history (save_new_plan_and_profile b uid profile plan now w) =
           close_plans uid now (plan_history w) @ [new_row uid profile plan now]"
    and "\<forall>f\<in>set (faults (save_new_plan_and_profile b uid profile plan now w)). \<not> f"
proof -
  let ?r1 = "UpsertUser (AList.update USER_ID (JInt uid) profile)"
  let ?r2 = "ClosePlans uid now"
  let ?r3 = "InsertPlan (new_row uid profile plan now)"
  obtain ok1 w1 where e1: "execute ?r1 w = (ok1, w1)" by fastforce
  obtain ok2 w2 where e2: "execute ?r2 w1 = (ok2, w2)" by fastforce
  obtain ok3 w3 where e3: "execute ?r3 w2 = (ok3, w3)" by fastforce
  have o1: "ok1" using fst_execute_ok [OF assms(3), of ?r1] by (simp add: e1)
  have f1: "\<forall>f\<in>set (faults w1). \<not> f"
    using faults_execute [of ?r1 w] tl_no_fault [OF assms(3)] by (simp add: e1)
  have o2: "ok2" using fst_execute_ok [OF f1, of ?r2] by (simp add: e2)
  have f2: "\<forall>f\<in>set (faults w2). \<not> f"
    using faults_execute [of ?r2 w1] tl_no_fault [OF f1] by (simp add: e2)
  have o3: "ok3" using fst_execute_ok [OF f2, of ?r3] by (simp add: e3)
  have f3: "\<forall>f\<in>set (faults w3). \<not> f"
    using faults_execute [of ?r3 w2] tl_no_fault [OF f2] by (simp add: e3)
  have p1: "plan_history w1 = plan_history w"
    using plan_history_execute [of ?r1 w] by (simp add: e1)
  have p2: "plan_history w2 = close_plans uid now (plan_history w)"
    using plan_history_execute [of ?r2 w1] o2 by (simp add: e2 p1)
  have p3: "plan_history w3 = plan_history w2 @ [new_row uid profile plan now]"
    using plan_history_execute [of ?r3 w2] o3 by (simp add: e3)
  have s: "save_new_plan_and_profile b uid profile plan now w = w3"
    using assms(1,2) o1 o2
    by (simp add: save_new_plan_and_profile_def Let_def e1 e2 new_row_def [symmetric] e3)
  show "plan_history (save_new_plan_and_profile b uid profile plan now w) =
           close_plans uid now (plan_history w) @ [new_row uid profile plan now]"
    by (simp add: s p3 p2)
  show "\<forall>f\<in>set (faults (save_new_plan_and_profile b uid profile plan now w)). \<not> f"
    using f3 by (simp only: s)
qed

lemma length_close_plans [simp]: "length (close_plans uid now tbl) = length tbl"
  by (simp add: close_plans_def)

lemma closed_rows:
  assumes "p \<in> set (close_plans uid now tbl)" and "user_id p = uid"
  shows "end_date p \<noteq> None"
proof -
  from assms(1) obtain q where q: "q \<in> set tbl"
    and p: "p = (if user_id q = uid \<and> end_date q = None then q\<lparr>end_date := Some now\<rparr> else q)"
    unfolding close_plans_def by auto
  show ?thesis
  proof (cases "user_id q = uid \<and> end_date q = None")
    case True
    with p have "p = q\<lparr>end_date := Some now\<rparr>" by simp
    then show ?thesis by simp
  next
    case False
    with p have "p = q" by simp
    with False assms(2) show ?thesis by simp
  qed
qed

section \<open>The plan body\<close>

text \<open>A text with no whitespace at either end.\<close>

definition trimmed :: "str \<Rightarrow> bool" where
  "trimmed s \<longleftrightarrow> s = [] \<or> (\<not> isspace (hd s) \<and> \<not> isspace (last s))"

lemma strip_prefix_of_dropWhile:
  "\<exists>t. dropWhile isspace s = strip s @ t \<and> (\<forall>c\<in>set t. isspace c)"
proof -
  let ?d = "dropWhile isspace s"
  have "rev ?d = takeWhile isspace (rev ?d) @ dropWhile isspace (rev ?d)" by simp
  then have "?d = rev (dropWhile isspace (rev ?d)) @ rev (takeWhile isspace (rev ?d))"
    by (metis rev_append rev_rev_ident)
  moreover have "\<forall>c\<in>set (rev (takeWhile isspace (rev ?d))). isspace c"
    by (auto dest: set_takeWhileD)
  ultimately show ?thesis unfolding strip_def by blast
qed

lemma strip_trimmed: "trimmed (strip s)"
proof (cases "strip s = []")
  case True
  then show ?thesis by (simp add: trimmed_def)
next
  case False
  obtain t where t: "dropWhile isspace s = strip s @ t"
    using strip_prefix_of_dropWhile by blast
  have "hd (strip s) = hd (dropWhile isspace s)" using False t by (metis hd_append2)
  moreover have "dropWhile isspace s \<noteq> []" using False t by auto
  ultimately have h: "\<not> isspace (hd (strip s))" using hd_dropWhile by metis
  have ne: "dropWhile isspace (rev (dropWhile isspace s)) \<noteq> []"
    using False by (simp add: strip_def)
  have "last (strip s) = hd (dropWhile isspace (rev (dropWhile isspace s)))"
    using ne by (simp add: strip_def last_rev)
  then have "\<not> isspace (last (strip s))" using ne hd_dropWhile by metis
  with h show ?thesis by (simp add: trimmed_def)
qed

lemma strip_of_trimmed: "trimmed s \<Longrightarrow> strip s = s"
proof (cases "s = []")
  case True
  then show ?thesis by (simp add: strip_def)
next
  case False
  assume "trimmed s"
  with False have h: "\<not> isspace (hd s)" and l: "\<not> isspace (last s)" by (auto simp: trimmed_def)
  have 1: "dropWhile isspace s = s" using h False by (simp add: dropWhile_eq_self_iff)
  have "hd (rev s) = last s" using False by (simp add: hd_rev)
  then have 2: "dropWhile isspace (rev s) = rev s" using l by (simp add: dropWhile_eq_self_iff)
  show ?thesis by (simp add: strip_def 1 2)
qed

lemma strip_idem: "strip (strip s) = strip s"
  by (simp add: strip_of_trimmed strip_trimmed)

lemma replace_skip_left:
  assumes "\<forall>c\<in>set l. isspace c" and "g \<noteq> []" and "\<not> isspace (hd g)"
  shows "replace (l @ s) g [] = l @ replace s g []"
  using assms(1)
proof (induction l)
  case Nil
  then show ?case by simp
next
  case (Cons c l)
  obtain p ps where g: "g = p # ps" using assms(2) by (cases g) auto
  have "c \<noteq> p" using Cons.prems assms(3) g by auto
  then show ?case using Cons g by simp
qed

lemma prefix_append_ws:
  assumes "\<forall>c\<in>set r. isspace c" and "g \<noteq> []" and "\<not> isspace (last g)"
  shows "prefix g (s @ r) \<longleftrightarrow> prefix g s"
proof
  assume "prefix g (s @ r)"
  then consider "prefix g s" | us where "g = s @ us" "prefix us r"
    by (auto simp: prefix_append)
  then show "prefix g s"
  proof cases
    case 1
    then show ?thesis .
  next
    case 2
    show ?thesis
    proof (cases "us = []")
      case True
      with 2 show ?thesis by simp
    next
      case False
      then have "last g = last us" using 2(1) by simp
      moreover have "last us \<in> set r" using False 2(2) set_mono_prefix last_in_set by fastforce
      ultimately show ?thesis using assms(1,3) by auto
    qed
  qed
qed simp

lemma replace_skip_right:
  assumes "\<forall>c\<in>set r. isspace c" and "g \<noteq> []" and "\<not> isspace (hd g)" and "\<not> isspace (last g)"
  shows "replace (s @ r) g [] = replace s g [] @ r"
proof (induction "length s" arbitrary: s rule: less_induct)
  case less
  obtain p ps where g: "g = p # ps" using assms(2) by (cases g) auto
  show ?case
  proof (cases s)
    case Nil
    have "replace (r @ []) g [] = r @ replace [] g []"
      using assms(1-3) by (rule replace_skip_left)
    then show ?thesis using Nil g by simp
  next
    case (Cons c cs)
    show ?thesis
    proof (cases "prefix (p # ps) (c # cs)")
      case True
      then have le: "length ps \<le> length cs" by (auto dest: prefix_length_le)
      have T2: "prefix (p # ps) (c # cs @ r)"
        using prefix_prefix [OF True, of r] by simp
      have "length (drop (length ps) cs) < length s" using Cons by simp
      then have IH: "replace (drop (length ps) cs @ r) g [] = replace (drop (length ps) cs) g [] @ r"
        by (rule less)
      have "replace (s @ r) g [] = replace (drop (length ps) (cs @ r)) (p # ps) []"
        unfolding Cons g append_Cons by (simp only: replace.simps T2 if_True append_Nil)
      also have "\<dots> = replace (drop (length ps) cs @ r) (p # ps) []"
        using le by simp
      also have "\<dots> = replace (drop (length ps) cs) (p # ps) [] @ r"
        using IH g by simp
      also have "replace (drop (length ps) cs) (p # ps) [] = replace s g []"
        unfolding Cons g by (simp only: replace.simps True if_True append_Nil)
      finally show ?thesis .
    next
      case False
      have F2: "\<not> prefix (p # ps) (c # cs @ r)"
        using prefix_append_ws [OF assms(1,2,4), of "c # cs"] False g by simp
      have IH: "replace (cs @ r) g [] = replace cs g [] @ r"
        using Cons by (intro less) simp
      have "replace (s @ r) g [] = c # replace (cs @ r) (p # ps) []"
        unfolding Cons g append_Cons by (simp only: replace.simps F2 if_False)
      also have "\<dots> = (c # replace cs (p # ps) []) @ r"
        using IH g by simp
      also have "c # replace cs (p # ps) [] = replace s g []"
        unfolding Cons g by (simp only: replace.simps False if_False)
      finally show ?thesis .
    qed
  qed
qed

lemma strip_ws_left: "\<forall>c\<in>set l. isspace c \<Longrightarrow> strip (l @ s) = strip s"
  by (simp add: strip_def dropWhile_append2)

lemma strip_ws_right:
  assumes "\<forall>c\<in>set r. isspace c"
  shows "strip (s @ r) = strip s"
proof (cases "\<forall>x\<in>set s. isspace x")
  case True
  then have a: "dropWhile isspace (s @ r) = []" and b: "dropWhile isspace s = []"
    using assms by auto
  show ?thesis unfolding strip_def a b by simp
next
  case False
  then obtain x where "x \<in> set s" "\<not> isspace x" by blast
  then have a: "dropWhile isspace (s @ r) = dropWhile isspace s @ r"
    by (rule dropWhile_append1)
  have b: "dropWhile isspace (rev r @ rev (dropWhile isspace s)) =
           dropWhile isspace (rev (dropWhile isspace s))"
    by (rule dropWhile_append2) (use assms in auto)
  show ?thesis unfolding strip_def a rev_append b by simp
qed

lemma strip_decompose:
  "\<exists>l r. s = l @ strip s @ r \<and> (\<forall>c\<in>set l. isspace c) \<and> (\<forall>c\<in>set r. isspace c)"
proof -
  obtain t where t: "dropWhile isspace s = strip s @ t" "\<forall>c\<in>set t. isspace c"
    using strip_prefix_of_dropWhile by blast
  have "s = takeWhile isspace s @ dropWhile isspace s" by simp
  then have "s = takeWhile isspace s @ strip s @ t" using t(1) by simp
  moreover have "\<forall>c\<in>set (takeWhile isspace s). isspace c" by (auto dest: set_takeWhileD)
  ultimately show ?thesis using t(2) by blast
qed

lemma strip_replace_strip:
  assumes "g \<noteq> []" and "\<not> isspace (hd g)" and "\<not> isspace (last g)"
  shows "strip (replace (strip s) g []) = strip (replace s g [])"
proof -
  obtain l r where d: "s = l @ strip s @ r" and l: "\<forall>c\<in>set l. isspace c" and r: "\<forall>c\<in>set r. isspace c"
    using strip_decompose by blast
  have "replace s g [] = replace (l @ strip s @ r) g []" using d by simp
  also have "\<dots> = l @ replace (strip s @ r) g []"
    using l assms(1,2) by (rule replace_skip_left)
  also have "\<dots> = l @ replace (strip s) g [] @ r"
    using replace_skip_right [OF r assms] by simp
  finally show ?thesis using l r by (simp add: strip_ws_left strip_ws_right)
qed

lemma re_search_ws_left: "\<forall>c\<in>set l. isspace c \<Longrightarrow> re_search (l @ s) = re_search s"
proof (induction l)
  case Nil
  then show ?case by simp
next
  case (Cons c l)
  have "\<not> prefix USER_DATA_JSON (c # l @ s)"
    using Cons.prems by (auto simp: USER_DATA_JSON_eq isspace_def)
  then show ?case using Cons by (simp add: match_here_None)
qed

lemma match_here_marker:
  "match_here (USER_DATA_JSON @ a) =
     (case dropWhile isspace a of
        [] \<Rightarrow> None
      | c # cs \<Rightarrow>
          if c = 123 \<and> 125 \<in> set cs
          then Some (USER_DATA_JSON @ takeWhile isspace a @ c # takeWhile (\<lambda>x. x \<noteq> 125) cs @ [125],
                     c # takeWhile (\<lambda>x. x \<noteq> 125) cs @ [125])
          else None)"
  by (auto simp: match_here_def Let_def split: list.splits)
     (metis dropWhile_eq_Nil_conv list.distinct(1))

lemma match_here_ws_right:
  assumes "\<forall>c\<in>set r. isspace c"
  shows "match_here (s @ r) = match_here s"
proof (cases "prefix USER_DATA_JSON s")
  case False
  moreover have "\<not> isspace (last USER_DATA_JSON)" "USER_DATA_JSON \<noteq> []"
    by (simp_all add: USER_DATA_JSON_eq isspace_def)
  ultimately have "\<not> prefix USER_DATA_JSON (s @ r)"
    using prefix_append_ws [OF assms, of USER_DATA_JSON s] by simp
  then show ?thesis using False by (simp add: match_here_None)
next
  case True
  then obtain a where s: "s = USER_DATA_JSON @ a" by (auto simp: prefix_def)
  have nb: "125 \<notin> set r" using assms by (auto simp: isspace_def)
  have sr: "s @ r = USER_DATA_JSON @ (a @ r)" by (simp add: s)
  show ?thesis
  proof (cases "\<forall>x\<in>set a. isspace x")
    case True
    then have x: "dropWhile isspace (a @ r) = []" and y: "dropWhile isspace a = []"
      using assms by auto
    show ?thesis unfolding sr unfolding s match_here_marker x y by simp
  next
    case False
    then obtain z where "z \<in> set a" "\<not> isspace z" by blast
    then have d: "dropWhile isspace (a @ r) = dropWhile isspace a @ r"
      and t: "takeWhile isspace (a @ r) = takeWhile isspace a"
      by (simp_all add: dropWhile_append1 takeWhile_append1)
    obtain c cs where c: "dropWhile isspace a = c # cs"
      using False by (cases "dropWhile isspace a") auto
    have k: "125 \<in> set cs \<Longrightarrow> takeWhile (\<lambda>x. x \<noteq> 125) (cs @ r) = takeWhile (\<lambda>x. x \<noteq> 125) cs"
      by (auto simp: takeWhile_append1)
    show ?thesis unfolding sr unfolding s match_here_marker d t c using nb k by auto
  qed
qed

lemma re_search_ws_right:
  assumes "\<forall>c\<in>set r. isspace c"
  shows "re_search (s @ r) = re_search s"
proof (induction s)
  case Nil
  have "re_search (r @ []) = re_search []" using assms by (rule re_search_ws_left)
  then show ?case by simp
next
  case (Cons c s)
  have "match_here ((c # s) @ r) = match_here (c # s)" using assms by (rule match_here_ws_right)
  then show ?case using Cons by (simp split: option.splits)
qed

lemma re_search_strip: "re_search (strip s) = re_search s"
proof -
  obtain l r where d: "s = l @ strip s @ r" and l: "\<forall>c\<in>set l. isspace c" and r: "\<forall>c\<in>set r. isspace c"
    using strip_decompose by blast
  have "re_search s = re_search (l @ strip s @ r)" using d by simp
  also have "\<dots> = re_search (strip s @ r)" using l by (rule re_search_ws_left)
  also have "\<dots> = re_search (strip s)" using r by (rule re_search_ws_right)
  finally show ?thesis by simp
qed

lemma match_here_shape:
  "match_here s = Some (g0, g1) \<Longrightarrow> g0 \<noteq> [] \<and> \<not> isspace (hd g0) \<and> \<not> isspace (last g0)"
  by (auto simp: match_here_def Let_def USER_DATA_JSON_eq isspace_def split: if_splits list.splits)

lemma re_search_shape:
  "re_search s = Some (g0, g1) \<Longrightarrow> g0 \<noteq> [] \<and> \<not> isspace (hd g0) \<and> \<not> isspace (last g0)"
  by (induction s) (auto dest: match_here_shape split: option.splits)

text \<open>The strip in the middle of \<open>_extract_plan_text\<close> changes neither the match nor the result.\<close>

lemma plan_text_by_match:
  "extract_plan_text text =
     (case re_search (replace text END_OF_PLAN []) of
        None \<Rightarrow> strip (replace text END_OF_PLAN [])
      | Some (g0, g1) \<Rightarrow> strip (replace (replace text END_OF_PLAN []) g0 []))"
proof (cases "re_search (replace text END_OF_PLAN [])")
  case None
  then show ?thesis
    by (simp add: extract_plan_text_def Let_def re_search_strip strip_idem)
next
  case (Some m)
  obtain g0 g1 where m: "m = (g0, g1)" by (cases m)
  have "g0 \<noteq> [] \<and> \<not> isspace (hd g0) \<and> \<not> isspace (last g0)"
    using Some m re_search_shape by blast
  then have "strip (replace (strip (replace text END_OF_PLAN [])) g0 []) =
             strip (replace (replace text END_OF_PLAN []) g0 [])"
    by (simp add: strip_replace_strip)
  then show ?thesis using Some m
    by (simp add: extract_plan_text_def Let_def re_search_strip strip_idem)
qed

section \<open>Concrete inputs\<close>

text \<open>An interpreter with its default limits, some fifty frames deep when it decodes.\<close>

definition cpython :: interpreter where
  "cpython = \<lparr>recursion_room = 950, int_max_str_digits = 4300\<rparr>"

text \<open>A bot with both clients, and a store with nothing in it where no request fails.\<close>

definition full_bot :: bot where
  "full_bot = \<lparr>model = True, supabase = True, interpreter = cpython\<rparr>"

definition empty_world :: world where
  "empty_world = \<lparr>users = [], plan_history = [], conversation_history = [], requests = [], faults = []\<rparr>"

text \<open>The same store with the profile of user 7, Alex, in it.\<close>

definition alex_world :: world where
  "alex_world = empty_world\<lparr>users := [[(USER_ID, JInt 7), (pystr ''name'', JString (pystr ''Alex''))]]\<rparr>"

text \<open>A payload that carries a \<open>user_id\<close> of its own.\<close>

definition alex_payload :: dict where
  "alex_payload = [(pystr ''name'', JString (pystr ''Alex'')), (USER_ID, JInt 99)]"

text \<open>A turn in which the typing indicator went out and the model engine answered \<open>t\<close>.\<close>

definition answered :: "str \<Rightarrow> turn_env" where
  "answered t = \<lparr>typing_ok = True, response = Some t, clock = 5\<rparr>"

text \<open>
  An answer with the terminal marker whose payload span has \<open>n\<close> arrays nested in it:
  \<^verbatim>\<open>[USER_DATA_JSON] {"a":[[[\<close> ... \<^verbatim>\<open>[} x [END_OF_PLAN]\<close>.
\<close>

definition deep_answer :: "nat \<Rightarrow> str" where
  "deep_answer n =
     pystr ''[USER_DATA_JSON] {\"a\":'' @ replicate n (ord CHR ''['') @ pystr ''} x [END_OF_PLAN]''"

lemmas json_defs = json_loads_def skip_ws_def json_ws_def scan_once.simps JSONObject.simps
  JSONArray.simps emit_def match_number_def match_sign_def match_int_def match_frac_def
  match_exp_def is_digit_def parse_int_def dict_of_pairs_def
  BACKSLASH_def decode_uXXXX_def hexval_def int_of_text_def

lemmas text_defs = pystr_def END_OF_PLAN_def USER_DATA_JSON_def match_here_def isspace_def
  strip_def extract_profile_json_def extract_plan_text_def Let_def

lemmas handler_defs = main_chat_handler_def deliver_def log_conversation_def load_profile_def
  save_new_plan_and_profile_def execute_def select_user_def select_open_plan_def open_plans_def
  upsert_def close_plans_def initial_prompt_def USER_ID_def no_persistence_def
  full_bot_def cpython_def empty_world_def answered_def

lemma raises_0: "raises 0 w \<longleftrightarrow> faults w \<noteq> [] \<and> hd (faults w)"
  by (cases "faults w") (auto simp: raises_def)

lemma raises_Suc: "raises (Suc n) w \<longleftrightarrow> raises n (w\<lparr>faults := tl (faults w)\<rparr>)"
  by (cases "faults w") (auto simp: raises_def)

lemma deliver_empty:
  "contains ai_message END_OF_PLAN \<Longrightarrow> extract_profile_json b ai_message = Inr (Some (JObject [])) \<Longrightarrow>
   deliver b uid ai_message now w = (strip (replace ai_message END_OF_PLAN []), w)"
  by (simp add: deliver_def)

lemma json_loads_empty: "json_loads i [123, 125] = Inr (JObject [])"
  by (simp add: json_defs)

lemma deep_answer_marker: "contains (deep_answer n) END_OF_PLAN"
proof -
  have "deep_answer n =
          (pystr ''[USER_DATA_JSON] {\"a\":'' @ replicate n 91 @ pystr ''} x '') @ END_OF_PLAN @ []"
    by (simp add: deep_answer_def pystr_def END_OF_PLAN_def)
  then show ?thesis using contains_append by metis
qed

lemma deep_answer_span:
  "re_search (deep_answer n) =
     Some (USER_DATA_JSON @ [32] @ 123 # (pystr ''\"a\":'' @ replicate n 91) @ [125],
           123 # (pystr ''\"a\":'' @ replicate n 91) @ [125])"
proof -
  have a: "\<not> contains [] USER_DATA_JSON" by (simp add: USER_DATA_JSON_eq)
  have b: "\<forall>c\<in>set [32]. isspace c" by (simp add: isspace_def)
  have c: "125 \<notin> set (pystr ''\"a\":'' @ replicate n 91)" by (simp add: pystr_def)
  have d: "deep_answer n =
             [] @ USER_DATA_JSON @ [32] @ 123 # (pystr ''\"a\":'' @ replicate n 91) @ 125 # pystr '' x [END_OF_PLAN]''"
    by (simp add: deep_answer_def pystr_def USER_DATA_JSON_def)
  show ?thesis unfolding d using a b c by (rule re_search_span)
qed

lemma deep_answer_raises:
  "recursion_room (interpreter b) < n \<Longrightarrow> extract_profile_json b (deep_answer n) = Inl RecursionError"
  using json_loads_deep [of "interpreter b" n]
  by (simp only: extract_profile_json_def deep_answer_span option.case prod.case sum.case exn.case)

lemma replace_brackets:
  "replace (replicate n 91 @ 125 # rest) END_OF_PLAN [] = replicate n 91 @ replace (125 # rest) END_OF_PLAN []"
proof (induction n)
  case 0
  show ?case by simp
next
  case (Suc n)
  have "\<not> prefix END_OF_PLAN (91 # replicate n 91 @ 125 # rest)"
    by (cases n) (simp_all add: END_OF_PLAN_def pystr_def)
  then show ?case using Suc.IH by (simp add: END_OF_PLAN_def pystr_def)
qed

lemma deep_answer_stripped:
  "strip (replace (deep_answer n) END_OF_PLAN []) =
     pystr ''[USER_DATA_JSON] {\"a\":'' @ replicate n 91 @ pystr ''} x''"
proof -
  have "replace (deep_answer n) END_OF_PLAN [] =
          pystr ''[USER_DATA_JSON] {\"a\":'' @ replace (replicate n 91 @ 125 # pystr '' x [END_OF_PLAN]'') END_OF_PLAN []"
    by (simp add: deep_answer_def pystr_def END_OF_PLAN_def)
  also have "\<dots> = pystr ''[USER_DATA_JSON] {\"a\":'' @ replicate n 91 @ pystr ''} x ''"
    unfolding replace_brackets by (simp add: pystr_def END_OF_PLAN_def)
  finally show ?thesis by (simp add: strip_def pystr_def isspace_def)
qed

section \<open>The claims\<close>

text \<open>
  C5. When the answer of the model engine does not contain the terminal marker
  \<open>[END_OF_PLAN]\<close>, the reply handed to the user is the answer itself, unchanged, and
  nothing is persisted: the tables \<open>users\<close> and \<open>plan_history\<close> are as before and the turn
  sends no profile upsert, no plan close and no plan insert.
\<close>

theorem plain_answer_unchanged:
  assumes "model b" "typing_ok env" "response env = Some ai_message"
    and "\<not> contains ai_message END_OF_PLAN"
  shows "replies (main_chat_handler b user_data uid user_message env w) = [ai_message] \<and>
         no_persistence w (after (main_chat_handler b user_data uid user_message env w))"
  using handler_answered [OF assms(1-3), where w = w and user_data = user_data and uid = uid
      and user_message = user_message] assms(4)
  by (auto simp: deliver_plain)

theorem plain_answer_unchanged_witness:
  "\<not> contains (pystr ''Drink two litres a day.'') END_OF_PLAN \<and>
   replies (main_chat_handler full_bot (Some []) 7 (pystr ''how much water should I drink'')
              (answered (pystr ''Drink two litres a day.'')) empty_world)
     = [pystr ''Drink two litres a day.''] \<and>
   no_persistence empty_world
     (after (main_chat_handler full_bot (Some []) 7 (pystr ''how much water should I drink'')
              (answered (pystr ''Drink two litres a day.'')) empty_world))"
proof -
  have h: "\<not> contains (pystr ''Drink two litres a day.'') END_OF_PLAN"
    by (simp add: text_defs)
  show ?thesis
    using h plain_answer_unchanged [where b = full_bot
        and env = "answered (pystr ''Drink two litres a day.'')"
        and ai_message = "pystr ''Drink two litres a day.''", OF _ _ _ h]
    by (simp add: full_bot_def answered_def)
qed

text \<open>
  C4 fails on the code. Line 173 catches \<open>JSONDecodeError\<close> and nothing else, so any
  other exception of \<open>json.loads\<close> leaves \<open>_extract_profile_json\<close> and is caught by the
  handler's \<open>except Exception\<close>, which replies with the apology. When the answer has the
  terminal marker and a payload span with more arrays nested in it than the interpreter
  has room for, decoding the span raises \<open>RecursionError\<close>, and the reply is the apology,
  not the answer with the terminal marker removed and trimmed.
\<close>

theorem deep_payload_not_delivered:
  assumes "model b" "typing_ok env" "response env = Some (deep_answer n)"
    and "recursion_room (interpreter b) < n"
  shows "contains (deep_answer n) END_OF_PLAN \<and>
         extract_profile_json b (deep_answer n) = Inl RecursionError \<and>
         replies (main_chat_handler b user_data uid user_message env w) = [APOLOGY] \<and>
         strip (replace (deep_answer n) END_OF_PLAN []) =
           pystr ''[USER_DATA_JSON] {\"a\":'' @ replicate n (ord CHR ''['') @ pystr ''} x'' \<and>
         strip (replace (deep_answer n) END_OF_PLAN []) \<noteq> APOLOGY"
proof -
  let ?ai = "deep_answer n"
  have m: "contains ?ai END_OF_PLAN" by (rule deep_answer_marker)
  have e: "extract_profile_json b ?ai = Inl RecursionError"
    using assms(4) by (rule deep_answer_raises)
  have d: "\<And>now w3. deliver b uid ?ai now w3 = (APOLOGY, w3)"
    using m e by (rule deliver_raised)
  have r: "replies (main_chat_handler b user_data uid user_message env w) = [APOLOGY]"
    using handler_answered [OF assms(1-3), where w = w and user_data = user_data and uid = uid
        and user_message = user_message]
    by (auto simp: d)
  have c: "ord CHR ''['' = (91::nat)" by simp
  have s: "strip (replace ?ai END_OF_PLAN []) =
             pystr ''[USER_DATA_JSON] {\"a\":'' @ replicate n (ord CHR ''['') @ pystr ''} x''"
    using deep_answer_stripped [of n] unfolding c .
  have "hd (strip (replace ?ai END_OF_PLAN [])) \<noteq> hd APOLOGY"
    unfolding s by (simp add: pystr_def APOLOGY_def)
  then have n: "strip (replace ?ai END_OF_PLAN []) \<noteq> APOLOGY" by auto
  show ?thesis using m e r s n by blast
qed

theorem deep_payload_not_delivered_witness:
  "recursion_room (interpreter full_bot) < 2000 \<and>
   contains (deep_answer 2000) END_OF_PLAN \<and>
   extract_profile_json full_bot (deep_answer 2000) = Inl RecursionError \<and>
   replies (main_chat_handler full_bot None 7 (pystr ''plan please'') (answered (deep_answer 2000))
              empty_world) = [APOLOGY] \<and>
   strip (replace (deep_answer 2000) END_OF_PLAN []) \<noteq> APOLOGY"
proof -
  have h: "recursion_room (interpreter full_bot) < 2000"
    by (simp add: full_bot_def cpython_def)
  have "model full_bot" "typing_ok (answered (deep_answer 2000))"
    "response (answered (deep_answer 2000)) = Some (deep_answer 2000)"
    by (simp_all add: full_bot_def answered_def)
  from deep_payload_not_delivered [OF this h, where w = empty_world and user_data = None
      and uid = 7 and user_message = "pystr ''plan please''"] h
  show ?thesis by blast
qed

text \<open>
  C8. On every turn that reaches the model engine, the first of a session or a later one
  and whatever the message asks for, the text forwarded is the user's message with a
  reminder appended: \<open>FIRST_REMINDER\<close> on the first turn of a session, \<open>REMINDER\<close>
  afterwards. Either reminder starts with two line feeds and \<open>REMINDER:\<close>, tells the
  engine that it must follow rule A, and names both markers of the output contract.
\<close>

theorem reminder_every_turn:
  assumes "model b" "typing_ok env"
  shows "\<exists>reminder.
           forwarded (main_chat_handler b user_data uid user_message env w) =
             [user_message @ reminder] \<and>
           reminder = (if user_data = None then FIRST_REMINDER else REMINDER) \<and>
           prefix ([0x0A, 0x0A] @ pystr ''REMINDER: '') reminder \<and>
           contains reminder (pystr ''you MUST follow RULE A'') \<and>
           contains reminder USER_DATA_JSON \<and> contains reminder END_OF_PLAN"
proof -
  have f: "prefix ([0x0A, 0x0A] @ pystr ''REMINDER: '') FIRST_REMINDER"
    "contains FIRST_REMINDER (pystr ''you MUST follow RULE A'')"
    "contains FIRST_REMINDER USER_DATA_JSON" "contains FIRST_REMINDER END_OF_PLAN"
    by (simp_all add: FIRST_REMINDER_def pystr_def USER_DATA_JSON_def END_OF_PLAN_def)
  have r: "prefix ([0x0A, 0x0A] @ pystr ''REMINDER: '') REMINDER"
    "contains REMINDER (pystr ''you MUST follow RULE A'')"
    "contains REMINDER USER_DATA_JSON" "contains REMINDER END_OF_PLAN"
    by (simp_all add: REMINDER_def pystr_def USER_DATA_JSON_def END_OF_PLAN_def)
  have "forwarded (main_chat_handler b user_data uid user_message env w) =
          [user_message @ (if user_data = None then FIRST_REMINDER else REMINDER)]"
    using assms
    by (cases user_data) (simp_all add: main_chat_handler_def Let_def split: prod.splits option.splits)
  then show ?thesis using f r by simp
qed

theorem reminder_every_turn_witness:
  "forwarded (main_chat_handler full_bot None 7 (pystr ''hi'') (answered (pystr ''Hello!'')) empty_world)
     = [pystr ''hi'' @ [0x0A, 0x0A] @
        pystr (''REMINDER: If generating a full wellness plan, you MUST follow RULE A: '' @
               ''Start with [USER_DATA_JSON] {...} then 10 numbered points, then [END_OF_PLAN].'')] \<and>
   forwarded (main_chat_handler full_bot (Some []) 7 (pystr ''what to eat in fever'')
                (answered (pystr ''Soup.'')) empty_world)
     = [pystr ''what to eat in fever'' @ [0x0A, 0x0A] @
        pystr (''REMINDER: If the user is asking for a new or updated wellness PLAN, '' @
               ''you MUST follow RULE A and include [USER_DATA_JSON] on the first line and '' @
               ''[END_OF_PLAN] as the last token of the message.'')]"
  using reminder_every_turn [where b = full_bot and env = "answered (pystr ''Hello!'')"
      and user_data = None and uid = 7 and user_message = "pystr ''hi''" and w = empty_world]
    reminder_every_turn [where b = full_bot and env = "answered (pystr ''Soup.'')"
      and user_data = "Some []" and uid = 7 and user_message = "pystr ''what to eat in fever''"
      and w = empty_world]
  by (auto simp: full_bot_def answered_def FIRST_REMINDER_def REMINDER_def)




text \<open>
  C9. When the answer contains the terminal marker and its first payload marker is
  followed by the empty object \<open>{}\<close>, the payload decodes to the empty dict, which the
  handler treats like a missing payload: the reply is the answer with the terminal marker
  removed and trimmed and nothing is persisted. \<open>save_new_plan_and_profile\<close> itself
  leaves every world as it is when the profile is empty.
\<close>

theorem empty_payload_fallback:
  assumes "model b" "typing_ok env" "response env = Some ai_message"
    and "contains ai_message END_OF_PLAN"
    and "ai_message = pre @ USER_DATA_JSON @ ws @ pystr ''{}'' @ post"
    and "\<not> contains pre USER_DATA_JSON" and "\<forall>c\<in>set ws. isspace c"
  shows "extract_profile_json b ai_message = Inr (Some (JObject [])) \<and>
         replies (main_chat_handler b user_data uid user_message env w) =
           [strip (replace ai_message END_OF_PLAN [])] \<and>
         no_persistence w (after (main_chat_handler b user_data uid user_message env w)) \<and>
         save_new_plan_and_profile b uid [] plan now w' = w'"
proof -
  have "re_search ai_message = Some (USER_DATA_JSON @ ws @ 123 # [] @ [125], 123 # [] @ [125])"
    using re_search_span [of pre ws "[]" post] assms(5-7) by (simp add: pystr_def)
  then have e: "extract_profile_json b ai_message = Inr (Some (JObject []))"
    by (simp add: extract_profile_json_def json_loads_empty)
  show ?thesis
    using handler_answered [OF assms(1-3), where w = w and user_data = user_data and uid = uid
        and user_message = user_message] assms(4) e
    by (auto simp: deliver_empty save_new_plan_and_profile_def)
qed

theorem empty_payload_fallback_witness:
  "extract_profile_json full_bot (pystr ''[USER_DATA_JSON] {} 1. Walk daily. [END_OF_PLAN]'')
     = Inr (Some (JObject [])) \<and>
   replies (main_chat_handler full_bot None 7 (pystr ''plan please'')
              (answered (pystr ''[USER_DATA_JSON] {} 1. Walk daily. [END_OF_PLAN]'')) empty_world)
     = [pystr ''[USER_DATA_JSON] {} 1. Walk daily.''] \<and>
   no_persistence empty_world
     (after (main_chat_handler full_bot None 7 (pystr ''plan please'')
              (answered (pystr ''[USER_DATA_JSON] {} 1. Walk daily. [END_OF_PLAN]'')) empty_world)) \<and>
   save_new_plan_and_profile full_bot 7 [] (pystr ''1. Walk daily.'') 5 empty_world = empty_world"
proof -
  let ?ai = "pystr ''[USER_DATA_JSON] {} 1. Walk daily. [END_OF_PLAN]''"
  have h1: "contains ?ai END_OF_PLAN" by (simp add: text_defs)
  have h2: "?ai = [] @ USER_DATA_JSON @ pystr '' '' @ pystr ''{}'' @ pystr '' 1. Walk daily. [END_OF_PLAN]''"
    by (simp add: text_defs)
  have h3: "\<not> contains [] USER_DATA_JSON" by (simp add: text_defs)
  have h4: "\<forall>c\<in>set (pystr '' ''). isspace c" by (simp add: text_defs)
  have r: "strip (replace ?ai END_OF_PLAN []) = pystr ''[USER_DATA_JSON] {} 1. Walk daily.''"
    by (simp add: text_defs)
  show ?thesis
    using r empty_payload_fallback [where b = full_bot and env = "answered ?ai" and ai_message = ?ai
        and w = empty_world and w' = empty_world and user_data = None and uid = 7
        and user_message = "pystr ''plan please''" and plan = "pystr ''1. Walk daily.''" and now = 5,
        OF _ _ _ h1 h2 h3 h4]
    by (simp add: full_bot_def answered_def)
qed

text \<open>
  C1 fails on the code. On the first message of a session the handler builds the priming
  text, for a returning user from the stored profile and for a new user without it, and
  then forwards the user's message with the reminder instead: for user 7 with a stored
  profile and for the same user without one the forwarded text is the same, and it is not
  the priming text.
\<close>

theorem priming_not_forwarded:
  "primed (main_chat_handler full_bot None 7 (pystr ''hi'') (answered (pystr ''Hello!'')) alex_world)
     = Some (ReturningUser [(USER_ID, JInt 7), (pystr ''name'', JString (pystr ''Alex''))]
               (pystr ''No previous plan found.'') (JString (pystr ''Alex'')) (pystr ''hi'')) \<and>
   forwarded (main_chat_handler full_bot None 7 (pystr ''hi'') (answered (pystr ''Hello!'')) alex_world)
     = [pystr ''hi'' @ FIRST_REMINDER] \<and>
   primed (main_chat_handler full_bot None 7 (pystr ''hi'') (answered (pystr ''Hello!'')) empty_world)
     = Some (BrandNewUser (pystr ''hi'')) \<and>
   forwarded (main_chat_handler full_bot None 7 (pystr ''hi'') (answered (pystr ''Hello!'')) empty_world)
     = [pystr ''hi'' @ FIRST_REMINDER]"
  by (simp add: handler_defs alex_world_def text_defs)

text \<open>
  C7, as the code has it. \<open>_load_profile\<close> returns \<open>None\<close>, and never an exception, in
  exactly four cases: there is no storage client, the first request raises, the profile
  row is absent, or the second request raises. A failed request and an absent row give
  the same result.
\<close>

theorem load_profile_none_iff:
  "fst (load_profile b uid w) = None \<longleftrightarrow>
     \<not> supabase b \<or> raises 0 w \<or> select_user uid w = [] \<or> raises 1 w"
  by (cases "faults w"; cases "tl (faults w)")
     (auto simp: load_profile_def execute_def Let_def select_user_def raises_def
           split: list.splits prod.splits)

theorem load_profile_none_iff_witness:
  "fst (load_profile \<lparr>model = True, supabase = False, interpreter = cpython\<rparr> 7 alex_world) = None \<and>
   fst (load_profile full_bot 7 (alex_world\<lparr>faults := [True]\<rparr>)) = None \<and>
   fst (load_profile full_bot 7 empty_world) = None \<and>
   fst (load_profile full_bot 7 (alex_world\<lparr>faults := [False, True]\<rparr>)) = None \<and>
   fst (load_profile full_bot 7 alex_world) \<noteq> None"
  using load_profile_none_iff [of "\<lparr>model = True, supabase = False, interpreter = cpython\<rparr>" 7 alex_world]
    load_profile_none_iff [of full_bot 7 "alex_world\<lparr>faults := [True]\<rparr>"]
    load_profile_none_iff [of full_bot 7 empty_world]
    load_profile_none_iff [of full_bot 7 "alex_world\<lparr>faults := [False, True]\<rparr>"]
    load_profile_none_iff [of full_bot 7 alex_world]
  by (simp add: raises_def select_user_def alex_world_def empty_world_def full_bot_def USER_ID_def pystr_def)

text \<open>
  C7 as stated fails: with the profile of user 7 stored and the first request raising,
  the result is the one an empty store gives, so the caller cannot tell a failure from a
  missing row.
\<close>

theorem failure_looks_like_absence_counterexample:
  "raises 0 (alex_world\<lparr>faults := [True]\<rparr>) \<and> select_user 7 empty_world = [] \<and>
   fst (load_profile full_bot 7 (alex_world\<lparr>faults := [True]\<rparr>)) = fst (load_profile full_bot 7 empty_world)"
  by (simp add: handler_defs alex_world_def raises_def)

text \<open>
  C10. Every call of \<open>save_new_plan_and_profile\<close> that gets past its guard sends, first,
  the upsert of the profile with the key \<open>user_id\<close> set to the caller's \<open>user_id\<close>
  argument, whatever \<open>user_id\<close> the payload carried, and with every other key as in the
  payload. The caller's dict is a value of its own: the plan row that is inserted (the
  third request, sent when the first two went through) carries the payload as it was
  passed in, without the injected key.
\<close>

theorem save_keys_row_by_caller:
  assumes "supabase b" "profile \<noteq> []"
  shows "\<exists>rest. requests (save_new_plan_and_profile b uid profile plan now_iso w) =
                  requests w @ UpsertUser (AList.update USER_ID (JInt uid) profile) # rest \<and>
                (\<forall>row. InsertPlan row \<in> set rest \<longrightarrow> profile_json row = profile \<and> user_id row = uid) \<and>
                (\<not> raises 0 w \<and> \<not> raises 1 w \<longrightarrow>
                   rest = [ClosePlans uid now_iso, InsertPlan (new_row uid profile plan now_iso)]) \<and>
                map_of (AList.update USER_ID (JInt uid) profile) USER_ID = Some (JInt uid) \<and>
                (\<forall>k. k \<noteq> USER_ID \<longrightarrow>
                   map_of (AList.update USER_ID (JInt uid) profile) k = map_of profile k)"
  using assms
  by (cases "faults w"; cases "tl (faults w)")
     (auto simp: save_new_plan_and_profile_def execute_def Let_def raises_def new_row_def
        AList.update_conv' split: prod.splits)

theorem save_keys_row_by_caller_witness:
  "supabase full_bot \<and> alex_payload \<noteq> [] \<and>
   requests (save_new_plan_and_profile full_bot 7 alex_payload (pystr ''1. Walk.'') 5 empty_world) =
     [UpsertUser [(pystr ''name'', JString (pystr ''Alex'')), (USER_ID, JInt 7)],
      ClosePlans 7 5,
      InsertPlan \<lparr>user_id = 7, plan_text = pystr ''1. Walk.'', profile_json = alex_payload,
                  start_date = 5, end_date = None\<rparr>] \<and>
   users (save_new_plan_and_profile full_bot 7 alex_payload (pystr ''1. Walk.'') 5 empty_world) =
     [[(pystr ''name'', JString (pystr ''Alex'')), (USER_ID, JInt 7)]]"
  using save_keys_row_by_caller [of full_bot alex_payload 7 "pystr ''1. Walk.''" 5 empty_world]
  by (simp add: handler_defs alex_payload_def new_row_def pystr_def Let_def raises_def)

text \<open>
  C3. If at most one plan of every user is open, this is still so after any sequence of
  calls of \<open>save_new_plan_and_profile\<close>, whatever their arguments and whichever requests
  fail. And two calls in succession for one user, with non-empty profiles and no failing
  request, leave exactly one open plan of that user: the row of the second call, which is
  the last row of the table; every row of the user before it has an \<open>end_date\<close>.
\<close>

theorem one_open_plan_per_user:
  "(one_open (plan_history w) \<longrightarrow> one_open (plan_history (save_all b calls w))) \<and>
   (supabase b \<and> profile1 \<noteq> [] \<and> profile2 \<noteq> [] \<and> (\<forall>f\<in>set (faults w). \<not> f) \<longrightarrow>
      (let w2 = save_new_plan_and_profile b uid profile2 plan2 now2
                  (save_new_plan_and_profile b uid profile1 plan1 now1 w)
       in open_plans uid (plan_history w2) = [new_row uid profile2 plan2 now2] \<and>
          last (plan_history w2) = new_row uid profile2 plan2 now2 \<and>
          length (plan_history w2) = length (plan_history w) + 2 \<and>
          (\<forall>p\<in>set (butlast (plan_history w2)). user_id p = uid \<longrightarrow> end_date p \<noteq> None)))"
proof (intro conjI impI)
  assume "one_open (plan_history w)"
  then show "one_open (plan_history (save_all b calls w))" by (rule save_all_one_open)
next
  assume a: "supabase b \<and> profile1 \<noteq> [] \<and> profile2 \<noteq> [] \<and> (\<forall>f\<in>set (faults w). \<not> f)"
  let ?w1 = "save_new_plan_and_profile b uid profile1 plan1 now1 w"
  let ?w2 = "save_new_plan_and_profile b uid profile2 plan2 now2 ?w1"
  have 1: "plan_history ?w1 = close_plans uid now1 (plan_history w) @ [new_row uid profile1 plan1 now1]"
    and f1: "\<forall>f\<in>set (faults ?w1). \<not> f"
    using a save_succeeds [of b profile1 w uid plan1 now1] by auto
  have 2: "plan_history ?w2 = close_plans uid now2 (plan_history ?w1) @ [new_row uid profile2 plan2 now2]"
    using a f1 save_succeeds(1) [of b profile2 ?w1 uid plan2 now2] by auto
  have "open_plans uid (plan_history ?w2) = [new_row uid profile2 plan2 now2]"
    by (simp add: 2)
  moreover have "last (plan_history ?w2) = new_row uid profile2 plan2 now2"
    by (simp add: 2)
  moreover have "length (plan_history ?w2) = length (plan_history w) + 2"
    by (simp add: 2 1)
  moreover have "\<forall>p\<in>set (butlast (plan_history ?w2)). user_id p = uid \<longrightarrow> end_date p \<noteq> None"
  proof -
    have "butlast (plan_history ?w2) = close_plans uid now2 (plan_history ?w1)"
      by (simp add: 2)
    then show ?thesis using closed_rows by metis
  qed
  ultimately show "let w2 = ?w2 in open_plans uid (plan_history w2) = [new_row uid profile2 plan2 now2] \<and>
          last (plan_history w2) = new_row uid profile2 plan2 now2 \<and>
          length (plan_history w2) = length (plan_history w) + 2 \<and>
          (\<forall>p\<in>set (butlast (plan_history w2)). user_id p = uid \<longrightarrow> end_date p \<noteq> None)"
    unfolding Let_def by (intro conjI)
qed

theorem one_open_plan_per_user_witness:
  "one_open (plan_history empty_world) \<and>
   one_open (plan_history (save_all full_bot
      [(7, alex_payload, pystr ''1. Walk.'', 5), (7, alex_payload, pystr ''1. Run.'', 9)] empty_world)) \<and>
   plan_history (save_new_plan_and_profile full_bot 7 alex_payload (pystr ''1. Run.'') 9
      (save_new_plan_and_profile full_bot 7 alex_payload (pystr ''1. Walk.'') 5 empty_world)) =
     [\<lparr>user_id = 7, plan_text = pystr ''1. Walk.'', profile_json = alex_payload,
        start_date = 5, end_date = Some 9\<rparr>,
      \<lparr>user_id = 7, plan_text = pystr ''1. Run.'', profile_json = alex_payload,
        start_date = 9, end_date = None\<rparr>] \<and>
   open_plans 7 (plan_history (save_new_plan_and_profile full_bot 7 alex_payload (pystr ''1. Run.'') 9
      (save_new_plan_and_profile full_bot 7 alex_payload (pystr ''1. Walk.'') 5 empty_world))) =
     [new_row 7 alex_payload (pystr ''1. Run.'') 9]"
proof -
  have h: "one_open (plan_history empty_world)"
    by (simp add: one_open_def open_plans_def empty_world_def)
  have e: "plan_history (save_new_plan_and_profile full_bot 7 alex_payload (pystr ''1. Run.'') 9
      (save_new_plan_and_profile full_bot 7 alex_payload (pystr ''1. Walk.'') 5 empty_world)) =
     [\<lparr>user_id = 7, plan_text = pystr ''1. Walk.'', profile_json = alex_payload,
        start_date = 5, end_date = Some 9\<rparr>,
      \<lparr>user_id = 7, plan_text = pystr ''1. Run.'', profile_json = alex_payload,
        start_date = 9, end_date = None\<rparr>]"
    by (simp add: handler_defs alex_payload_def Let_def)
  show ?thesis
    using h e one_open_plan_per_user [of empty_world full_bot
        "[(7, alex_payload, pystr ''1. Walk.'', 5), (7, alex_payload, pystr ''1. Run.'', 9)]"
        alex_payload alex_payload 7 "pystr ''1. Run.''" 9 "pystr ''1. Walk.''" 5]
    by (simp add: Let_def full_bot_def empty_world_def alex_payload_def new_row_def)
qed

text \<open>
  C6, as the code has it. For every text \<open>_extract_plan_text\<close> returns a value: the text
  with every terminal marker removed, then every occurrence of the span that the payload
  pattern matches first in what is left removed, trimmed. The span is the payload marker,
  the whitespace after it and what follows from an opening brace to the first closing
  brace; it is removed whether it parses or not. When the pattern matches nowhere, the
  result is the text with only the terminal marker removed, trimmed. The result has no
  whitespace at either end.
\<close>

theorem extract_plan_text_removes_match:
  "(\<forall>pre ws body post.
      replace text END_OF_PLAN [] =
        pre @ USER_DATA_JSON @ ws @ (ord CHR ''{'' # body @ [ord CHR ''}'']) @ post \<and>
      \<not> contains pre USER_DATA_JSON \<and> (\<forall>c\<in>set ws. isspace c) \<and> ord CHR ''}'' \<notin> set body
      \<longrightarrow> extract_plan_text text =
            strip (replace (replace text END_OF_PLAN [])
                     (USER_DATA_JSON @ ws @ ord CHR ''{'' # body @ [ord CHR ''}'']) [])) \<and>
   (\<forall>g0 g1. re_search (replace text END_OF_PLAN []) = Some (g0, g1)
      \<longrightarrow> extract_plan_text text = strip (replace (replace text END_OF_PLAN []) g0 [])) \<and>
   (re_search (replace text END_OF_PLAN []) = None
      \<longrightarrow> extract_plan_text text = strip (replace text END_OF_PLAN [])) \<and>
   trimmed (extract_plan_text text)"
proof (intro conjI allI impI)
  fix pre ws body post
  assume a: "replace text END_OF_PLAN [] =
        pre @ USER_DATA_JSON @ ws @ (ord CHR ''{'' # body @ [ord CHR ''}'']) @ post \<and>
      \<not> contains pre USER_DATA_JSON \<and> (\<forall>c\<in>set ws. isspace c) \<and> ord CHR ''}'' \<notin> set body"
  then have "re_search (replace text END_OF_PLAN []) =
               Some (USER_DATA_JSON @ ws @ 123 # body @ [125], 123 # body @ [125])"
    using re_search_span [of pre ws body post] by simp
  then show "extract_plan_text text =
            strip (replace (replace text END_OF_PLAN [])
                     (USER_DATA_JSON @ ws @ ord CHR ''{'' # body @ [ord CHR ''}'']) [])"
    by (simp add: plan_text_by_match)
next
  fix g0 g1
  assume "re_search (replace text END_OF_PLAN []) = Some (g0, g1)"
  then show "extract_plan_text text = strip (replace (replace text END_OF_PLAN []) g0 [])"
    by (simp add: plan_text_by_match)
next
  assume "re_search (replace text END_OF_PLAN []) = None"
  then show "extract_plan_text text = strip (replace text END_OF_PLAN [])"
    by (simp add: plan_text_by_match)
next
  show "trimmed (extract_plan_text text)"
    by (simp add: extract_plan_text_def Let_def strip_trimmed)
qed

theorem extract_plan_text_removes_match_witness:
  "extract_plan_text (pystr ''[USER_DATA_JSON] {\"name\":\"Alex\",\"age\":30}'' @ [0x0A] @
                      pystr ''1. Walk daily. 10. Sleep well. This is general advice.[END_OF_PLAN]'')
     = pystr ''1. Walk daily. 10. Sleep well. This is general advice.'' \<and>
   extract_plan_text (pystr ''Plan: [USER_DATA_JSON] {name: Alex} 1. Walk. [END_OF_PLAN]'')
     = pystr ''Plan:  1. Walk.'' \<and>
   re_search (replace (pystr ''  1. Walk daily. [END_OF_PLAN] '') END_OF_PLAN []) = None \<and>
   extract_plan_text (pystr ''  1. Walk daily. [END_OF_PLAN] '') = pystr ''1. Walk daily.'' \<and>
   trimmed (extract_plan_text (pystr ''  1. Walk daily. [END_OF_PLAN] ''))"
proof -
  let ?t = "pystr ''[USER_DATA_JSON] {\"name\":\"Alex\",\"age\":30}'' @ [0x0A] @
            pystr ''1. Walk daily. 10. Sleep well. This is general advice.[END_OF_PLAN]''"
  let ?g = "pystr ''Plan: [USER_DATA_JSON] {name: Alex} 1. Walk. [END_OF_PLAN]''"
  let ?f = "pystr ''  1. Walk daily. [END_OF_PLAN] ''"
  have a1: "replace ?t END_OF_PLAN [] =
              [] @ USER_DATA_JSON @ pystr '' '' @
              (ord CHR ''{'' # pystr ''\"name\":\"Alex\",\"age\":30'' @ [ord CHR ''}'']) @
              (0x0A # pystr ''1. Walk daily. 10. Sleep well. This is general advice.'') \<and>
            \<not> contains [] USER_DATA_JSON \<and> (\<forall>c\<in>set (pystr '' ''). isspace c) \<and>
            ord CHR ''}'' \<notin> set (pystr ''\"name\":\"Alex\",\"age\":30'')"
    by (simp add: text_defs)
  have a2: "strip (replace (replace ?t END_OF_PLAN [])
              (USER_DATA_JSON @ pystr '' '' @
               ord CHR ''{'' # pystr ''\"name\":\"Alex\",\"age\":30'' @ [ord CHR ''}'']) [])
            = pystr ''1. Walk daily. 10. Sleep well. This is general advice.''"
    by (simp add: text_defs)
  have 1: "extract_plan_text ?t = pystr ''1. Walk daily. 10. Sleep well. This is general advice.''"
    using extract_plan_text_removes_match [of ?t, THEN conjunct1, rule_format, OF a1] a2
    by (simp only:)
  have b1: "re_search (replace ?g END_OF_PLAN []) =
              Some (pystr ''[USER_DATA_JSON] {name: Alex}'', pystr ''{name: Alex}'')"
    by (simp add: text_defs)
  have b2: "strip (replace (replace ?g END_OF_PLAN []) (pystr ''[USER_DATA_JSON] {name: Alex}'') [])
            = pystr ''Plan:  1. Walk.''"
    by (simp add: text_defs)
  have 2: "extract_plan_text ?g = pystr ''Plan:  1. Walk.''"
    using extract_plan_text_removes_match [of ?g, THEN conjunct2, THEN conjunct1, rule_format, OF b1] b2
    by (simp only:)
  have c1: "re_search (replace ?f END_OF_PLAN []) = None"
    by (simp add: text_defs)
  have c2: "strip (replace ?f END_OF_PLAN []) = pystr ''1. Walk daily.''"
    by (simp add: text_defs)
  have 3: "extract_plan_text ?f = pystr ''1. Walk daily.''"
    using extract_plan_text_removes_match [of ?f, THEN conjunct2, THEN conjunct2, THEN conjunct1,
        rule_format, OF c1] c2
    by (simp only:)
  have 4: "trimmed (extract_plan_text ?f)"
    using extract_plan_text_removes_match [of ?f] by blast
  show ?thesis using 1 2 c1 3 4 by blast
qed

text \<open>
  C6 as stated fails when a span is matched that does not parse: the payload extraction
  gives \<open>None\<close> for the text below, and the plan body is not the text with only the
  terminal marker removed, for the span is gone from it as well.
\<close>

theorem unparsed_span_removed_counterexample:
  "extract_profile_json full_bot (pystr ''[USER_DATA_JSON] {name: Alex} 1. Walk. [END_OF_PLAN]'')
     = Inr None \<and>
   extract_plan_text (pystr ''[USER_DATA_JSON] {name: Alex} 1. Walk. [END_OF_PLAN]'')
     = pystr ''1. Walk.'' \<and>
   strip (replace (pystr ''[USER_DATA_JSON] {name: Alex} 1. Walk. [END_OF_PLAN]'') END_OF_PLAN [])
     = pystr ''[USER_DATA_JSON] {name: Alex} 1. Walk.''"
  by (simp add: text_defs json_defs full_bot_def cpython_def)

end
